theory Spec2Isabelle
  imports Main "HOL-Library.Sublist"
begin

section \<open>Strings of the host language\<close>

text \<open>
  The servers are TypeScript programs; their strings are sequences of UTF-16 code units.
  A \<^typ>\<open>string\<close> here is a sequence of code units below 256 (the Latin-1 range), on which
  \<open>String.prototype.toLowerCase\<close> maps \<open>A\<close>..\<open>Z\<close> and the code units 192..222 except 215
  to the code unit 32 above, and nothing else.
\<close>

definition toLowerCase_unit :: "char \<Rightarrow> char" where
  "toLowerCase_unit c =
     (let n = (of_char c :: nat)
      in if (65 \<le> n \<and> n \<le> 90) \<or> (192 \<le> n \<and> n \<le> 222 \<and> n \<noteq> 215)
         then char_of (n + 32) else c)"

definition toLowerCase :: "string \<Rightarrow> string" where
  "toLowerCase s = map toLowerCase_unit s"

text \<open>\<open>s.includes(t)\<close>: \<open>t\<close> occurs in \<open>s\<close> as a contiguous run of code units.\<close>

fun includes_str :: "string \<Rightarrow> string \<Rightarrow> bool" where
  "includes_str [] t = (t = [])"
| "includes_str (x # xs) t = (prefix t (x # xs) \<or> includes_str xs t)"

text \<open>\<open>xs.join(sep)\<close> on an array of strings.\<close>

fun join :: "string \<Rightarrow> string list \<Rightarrow> string" where
  "join sep [] = []"
| "join sep [x] = x"
| "join sep (x # y # ys) = x @ sep @ join sep (y # ys)"

text \<open>\<open>n.toString()\<close> on a non-negative integer: its decimal digits.\<close>

definition digit_unit :: "nat \<Rightarrow> char" where
  "digit_unit d = char_of (48 + d)"

fun toString :: "nat \<Rightarrow> string" where
  "toString n = (if n < 10 then [digit_unit n] else toString (n div 10) @ [digit_unit (n mod 10)])"

text \<open>
  \<open>s.padStart(targetLength, padString)\<close>: when \<open>s\<close> is shorter than the target and the pad
  string is not empty, the pad string is repeated, cut to the missing length, in front of \<open>s\<close>.
\<close>

definition repeat_to :: "nat \<Rightarrow> string \<Rightarrow> string" where
  "repeat_to k pad = take k (concat (replicate k pad))"

definition padStart :: "nat \<Rightarrow> string \<Rightarrow> string \<Rightarrow> string" where
  "padStart targetLength padString s =
     (if targetLength \<le> length s \<or> padString = [] then s
      else repeat_to (targetLength - length s) padString @ s)"

section \<open>The pattern engine\<close>

text \<open>
  \<open>new RegExp(text, "g")\<close> and \<open>String.prototype.match\<close> belong to the host, not to the
  servers. The scoring functions below take the engine as a parameter; this section gives
  the engine on a fragment of the pattern language: pattern characters, \<open>.\<close>, a backslash
  before a syntax character, groups, \<open>|\<close>, and the greedy quantifiers \<open>*\<close>, \<open>+\<close>, \<open>?\<close>.
  A text that leaves the fragment (classes, braces, anchors, other escapes, group
  specifiers, lazy quantifiers) is answered by \<open>OutsideFragment\<close>: the fragment says
  nothing about it.
\<close>

datatype regex =
    Chr char
  | Dot
  | Empty
  | Seq regex regex
  | Alt regex regex
  | Star regex

datatype compiled = Compiled regex | InvalidPattern | OutsideFragment

fun seq_of :: "regex list \<Rightarrow> regex" where
  "seq_of [] = Empty"
| "seq_of (t # ts) = Seq t (seq_of ts)"

fun alt_of :: "regex list \<Rightarrow> regex" where
  "alt_of [] = Empty"
| "alt_of [a] = a"
| "alt_of (a # b # bs) = Alt a (alt_of (b # bs))"

text \<open>What the parser has just read: decides whether a quantifier may follow.\<close>

datatype lastread = Nothing | OpenGroup | Atom | Quantified

text \<open>
  The parser state: the enclosing groups (for each, its finished alternatives and the terms
  of its current alternative, both newest first), the finished alternatives and the terms
  of the current alternative of the innermost group, what was read last, and whether a
  backslash is pending.
\<close>

record pstate =
  outer :: "(regex list \<times> regex list) list"
  alts :: "regex list"
  terms :: "regex list"
  lastread :: lastread
  escaped :: bool

definition syntax_character :: "char \<Rightarrow> bool" where
  "syntax_character c = (c = CHR 0x5C \<or> c \<in> set ''^$.*+?()[]{}|'')"

definition close_alternatives :: "regex list \<Rightarrow> regex list \<Rightarrow> regex" where
  "close_alternatives as ts = alt_of (rev (seq_of (rev ts) # as))"

datatype pstep = Next pstate | Fail compiled

definition parse_unit :: "pstate \<Rightarrow> char \<Rightarrow> pstep" where
  "parse_unit p c =
     (if escaped p then
        (if syntax_character c \<or> c = CHR ''/''
         then Next (p\<lparr>terms := Chr c # terms p, lastread := Atom, escaped := False\<rparr>)
         else Fail OutsideFragment)
      else if c = CHR 0x5C then Next (p\<lparr>escaped := True\<rparr>)
      else if c = CHR ''('' then
        Next (p\<lparr>outer := (alts p, terms p) # outer p, alts := [], terms := [],
                lastread := OpenGroup\<rparr>)
      else if c = CHR '')'' then
        (case outer p of
           [] \<Rightarrow> Fail InvalidPattern
         | (as, ts) # rest \<Rightarrow>
             Next (p\<lparr>outer := rest, alts := as,
                     terms := close_alternatives (alts p) (terms p) # ts, lastread := Atom\<rparr>))
      else if c = CHR ''|'' then
        Next (p\<lparr>alts := seq_of (rev (terms p)) # alts p, terms := [], lastread := Nothing\<rparr>)
      else if c = CHR ''*'' \<or> c = CHR ''+'' then
        (case (lastread p, terms p) of
           (Atom, t # ts) \<Rightarrow>
             Next (p\<lparr>terms := (if c = CHR ''*'' then Star t else Seq t (Star t)) # ts,
                     lastread := Quantified\<rparr>)
         | _ \<Rightarrow> Fail InvalidPattern)
      else if c = CHR ''?'' then
        (case (lastread p, terms p) of
           (Atom, t # ts) \<Rightarrow> Next (p\<lparr>terms := Alt t Empty # ts, lastread := Quantified\<rparr>)
         | (Nothing, _) \<Rightarrow> Fail InvalidPattern
         | _ \<Rightarrow> Fail OutsideFragment)
      else if c = CHR ''.'' then Next (p\<lparr>terms := Dot # terms p, lastread := Atom\<rparr>)
      else if syntax_character c then Fail OutsideFragment
      else Next (p\<lparr>terms := Chr c # terms p, lastread := Atom\<rparr>))"

fun parse_units :: "pstate \<Rightarrow> string \<Rightarrow> compiled" where
  "parse_units p [] =
     (if escaped p \<or> outer p \<noteq> [] then InvalidPattern
      else Compiled (close_alternatives (alts p) (terms p)))"
| "parse_units p (c # cs) =
     (case parse_unit p c of Fail r \<Rightarrow> r | Next p' \<Rightarrow> parse_units p' cs)"

definition RegExp_new :: "string \<Rightarrow> compiled" where
  "RegExp_new text =
     parse_units \<lparr>outer = [], alts = [], terms = [], lastread = Nothing, escaped = False\<rparr> text"

text \<open>
  Matching is the backtracking of the language definition: \<open>matches re s\<close> lists what is
  left of \<open>s\<close> after each way \<open>re\<close> matches at its start, the preferred way first. An
  iteration of a starred term that consumes nothing is rejected.
\<close>

definition line_terminator :: "char \<Rightarrow> bool" where
  "line_terminator c = (c = CHR 0x0A \<or> c = CHR 0x0D)"

fun matches :: "regex \<Rightarrow> string \<Rightarrow> string list" where
  "matches (Chr c) s = (case s of [] \<Rightarrow> [] | x # xs \<Rightarrow> if x = c then [xs] else [])"
| "matches Dot s = (case s of [] \<Rightarrow> [] | x # xs \<Rightarrow> if line_terminator x then [] else [xs])"
| "matches Empty s = [s]"
| "matches (Seq a b) s = concat (map (matches b) (matches a s))"
| "matches (Alt a b) s = matches a s @ matches b s"
| "matches (Star a) s =
     concat (map (\<lambda>s'. if length s' < length s then matches (Star a) s' else []) (matches a s))
     @ [s]"

text \<open>
  \<open>exec re s\<close>: the first position of \<open>s\<close>, from the left, where \<open>re\<close> matches; the result
  is the rest of \<open>s\<close> from that position and the rest after the match.
\<close>

fun exec :: "regex \<Rightarrow> string \<Rightarrow> (string \<times> string) option" where
  "exec re [] = (case matches re [] of [] \<Rightarrow> None | r # _ \<Rightarrow> Some ([], r))"
| "exec re (x # xs) =
     (case matches re (x # xs) of [] \<Rightarrow> exec re xs | r # _ \<Rightarrow> Some (x # xs, r))"

text \<open>
  \<open>s.match(re)\<close> with the global flag collects the matches from left to right, each search
  starting where the last match ended, one code unit further after an empty match. Only
  the number of matches is used by the servers (\<open>(... || []).length\<close>).
\<close>

function match_count :: "regex \<Rightarrow> string \<Rightarrow> nat" where
  "match_count re s =
     (case exec re s of
        None \<Rightarrow> 0
      | Some (u, r) \<Rightarrow>
          if length r < length u then Suc (match_count re r)
          else (case u of [] \<Rightarrow> 1 | _ # t \<Rightarrow> Suc (match_count re t)))"
  by pat_completeness auto
termination
proof (relation "measure (\<lambda>(re, s). length s)")
  have shorter: "length u \<le> length s" if "exec re s = Some (u, r)" for re s u r
    using that by (induction s) (auto split: list.splits)
  show "wf (measure (\<lambda>(re, s). length s))" by simp
  show "((re, r), (re, s)) \<in> measure (\<lambda>(re, s). length s)"
    if "exec re s = Some x2" "(u, r) = x2" "length r < length u" for re s x2 u r
    using that shorter [of re s u r] by simp
  show "((re, t), (re, s)) \<in> measure (\<lambda>(re, s). length s)"
    if "exec re s = Some x2" "(u, r) = x2" "\<not> length r < length u" "u = x21 # t"
    for re s x2 u r x21 t
    using that shorter [of re s u r] by simp
qed

declare match_count.simps [simp del]

section \<open>Errors and array operations of the host\<close>

text \<open>
  A thrown exception is a value: \<open>TypeError\<close> for a method called on \<open>undefined\<close>,
  \<open>SyntaxError\<close> for a pattern text the engine rejects, \<open>RuleNotFound\<close> and \<open>SaveFailed\<close>
  for the two errors the rule server raises itself. \<open>PatternOutsideFragment\<close> is not an
  exception of the program: it marks a pattern text the engine fragment above does not cover.
\<close>

datatype error =
    TypeError
  | SyntaxError
  | PatternOutsideFragment
  | RuleNotFound string
  | SaveFailed

text \<open>
  The pattern engine as the scoring functions use it: pattern text and subject in, the
  number of global matches out, or the exception of the constructor.
\<close>

type_synonym engine = "string \<Rightarrow> string \<Rightarrow> error + nat"

definition fragment_engine :: engine where
  "fragment_engine text s =
     (case RegExp_new text of
        Compiled re \<Rightarrow> Inr (match_count re s)
      | InvalidPattern \<Rightarrow> Inl SyntaxError
      | OutsideFragment \<Rightarrow> Inl PatternOutsideFragment)"

text \<open>\<open>xs.map(f)\<close> where \<open>f\<close> may throw: the first exception, in array order, ends the map.\<close>

fun map_throwing :: "('a \<Rightarrow> error + 'b) \<Rightarrow> 'a list \<Rightarrow> error + 'b list" where
  "map_throwing f [] = Inr []"
| "map_throwing f (x # xs) =
     (case f x of
        Inl e \<Rightarrow> Inl e
      | Inr y \<Rightarrow> (case map_throwing f xs of Inl e \<Rightarrow> Inl e | Inr ys \<Rightarrow> Inr (y # ys)))"

text \<open>\<open>xs.filter(p)\<close> where \<open>p\<close> may throw: the first exception, in array order, ends it.\<close>

fun filter_throwing :: "('a \<Rightarrow> error + bool) \<Rightarrow> 'a list \<Rightarrow> error + 'a list" where
  "filter_throwing p [] = Inr []"
| "filter_throwing p (x # xs) =
     (case p x of
        Inl e \<Rightarrow> Inl e
      | Inr keep \<Rightarrow>
          (case filter_throwing p xs of
             Inl e \<Rightarrow> Inl e
           | Inr ys \<Rightarrow> Inr (if keep then x # ys else ys)))"

text \<open>
  \<open>xs.sort(cmp)\<close>: the sort of the language is stable, so with a consistent comparator its
  result is the one of this insertion sort, which puts an element in front of the first
  element it does not have to follow.
\<close>

fun insert_cmp :: "('a \<Rightarrow> 'a \<Rightarrow> int) \<Rightarrow> 'a \<Rightarrow> 'a list \<Rightarrow> 'a list" where
  "insert_cmp cmp x [] = [x]"
| "insert_cmp cmp x (y # ys) = (if cmp x y \<le> 0 then x # y # ys else y # insert_cmp cmp x ys)"

definition sort_cmp :: "('a \<Rightarrow> 'a \<Rightarrow> int) \<Rightarrow> 'a list \<Rightarrow> 'a list" where
  "sort_cmp cmp xs = foldr (insert_cmp cmp) xs []"

text \<open>\<open>xs.slice(0, end)\<close> for an integral \<open>end\<close>: a negative end counts from the end of the array.\<close>

definition slice0 :: "int \<Rightarrow> 'a list \<Rightarrow> 'a list" where
  "slice0 e xs = (if e < 0 then take (nat (int (length xs) + e)) xs else take (nat e) xs)"

text \<open>\<open>xs.findIndex(p)\<close>, with \<open>None\<close> for -1.\<close>

fun findIndex :: "('a \<Rightarrow> bool) \<Rightarrow> 'a list \<Rightarrow> nat option" where
  "findIndex p [] = None"
| "findIndex p (x # xs) =
     (if p x then Some 0 else (case findIndex p xs of None \<Rightarrow> None | Some i \<Rightarrow> Some (Suc i)))"

text \<open>A mutation of the object \<open>xs.find(p)\<close> returns: the first element satisfying \<open>p\<close> changes.\<close>

fun update_found :: "('a \<Rightarrow> bool) \<Rightarrow> ('a \<Rightarrow> 'a) \<Rightarrow> 'a list \<Rightarrow> 'a list" where
  "update_found p f [] = []"
| "update_found p f (x # xs) = (if p x then f x # xs else x # update_found p f xs)"

text \<open>
  \<open>x || d\<close> where \<open>d\<close> is the empty string or the empty array: an absent \<open>x\<close> gives \<open>d\<close>, and
  an empty string \<open>x\<close>, the only other falsy value of these types, is \<open>d\<close> itself.
\<close>

definition or_else :: "'a option \<Rightarrow> 'a \<Rightarrow> 'a" where
  "or_else x d = (case x of None \<Rightarrow> d | Some v \<Rightarrow> v)"

section \<open>The rule server\<close>

text \<open>
  \<open>createRule\<close> copies \<open>args.title\<close> and \<open>args.content\<close> into the record without looking at
  them, so at run time these two fields of a stored rule may be \<open>undefined\<close>: they are
  options here. The field \<open>id\<close> is \<open>rule_id\<close>.
\<close>

record Rule =
  rule_id :: string
  title :: "string option"
  category :: string
  description :: string
  content :: "string option"
  tags :: "string list"
  examples :: "string list"
  relatedRules :: "string list"
  timestamp :: string
  version :: string

record RuleCategory =
  cat_name :: string
  cat_description :: string
  cat_rules :: "string list"

text \<open>
  The server object: the two arrays in memory, and the two files of the storage directory
  (\<open>None\<close>: not written yet), each holding the array serialised by the last successful write.
\<close>

record RulesServer =
  rules :: "Rule list"
  categories :: "RuleCategory list"
  rulesFile :: "Rule list option"
  categoriesFile :: "RuleCategory list option"

text \<open>What the file system answers to the two writes of one \<open>saveRules\<close>.\<close>

record Disk =
  writeRulesOk :: bool
  writeCategoriesOk :: bool

definition saveRules :: "Disk \<Rightarrow> RulesServer \<Rightarrow> (error + unit) \<times> RulesServer" where
  "saveRules d s =
     (if \<not> writeRulesOk d then (Inl SaveFailed, s)
      else let s1 = s\<lparr>rulesFile := Some (rules s)\<rparr>
           in if \<not> writeCategoriesOk d then (Inl SaveFailed, s1)
              else (Inr (), s1\<lparr>categoriesFile := Some (categories s1)\<rparr>))"

definition generateId :: "Rule list \<Rightarrow> string \<Rightarrow> string" where
  "generateId rs cat =
     (let prefix = toLowerCase (take 3 cat);
          count = length (filter (\<lambda>r. category r = cat) rs) + 1
      in prefix @ ''-'' @ padStart 3 ''0'' (toString count))"

definition calculateSimilarity :: "engine \<Rightarrow> string \<Rightarrow> Rule \<Rightarrow> error + nat" where
  "calculateSimilarity engine query rule =
     (let queryLower = toLowerCase query; score = 0 in
      (case title rule of
         None \<Rightarrow> Inl TypeError
       | Some t \<Rightarrow>
          (let score = (if includes_str (toLowerCase t) queryLower then score + 50 else score) in
           (case content rule of
              None \<Rightarrow> Inl TypeError
            | Some c \<Rightarrow>
               (case engine queryLower (toLowerCase c) of
                  Inl e \<Rightarrow> Inl e
                | Inr contentMatches \<Rightarrow>
                   (let score = score + contentMatches * 15;
                        tagMatches = length (filter (\<lambda>tag.
                            includes_str (toLowerCase tag) queryLower
                            \<or> includes_str queryLower (toLowerCase tag)) (tags rule));
                        score = score + tagMatches * 40;
                        score = (if includes_str (toLowerCase (category rule)) queryLower
                                 then score + 30 else score);
                        score = (if includes_str (toLowerCase (description rule)) queryLower
                                 then score + 25 else score);
                        exampleMatches = length (filter (\<lambda>example.
                            includes_str (toLowerCase example) queryLower) (examples rule));
                        score = score + exampleMatches * 10
                    in Inr score))))))"

record CreateArgs =
  a_title :: "string option"
  a_category :: "string option"
  a_description :: "string option"
  a_content :: "string option"
  a_tags :: "string list option"
  a_examples :: "string list option"

text \<open>
  \<open>createRule\<close>, with the clock reading and the answers of the file system as arguments.
  It returns the rule it built (the source reports its id, title, category and tags).
  A missing category makes \<open>generateId\<close> call \<open>substring\<close> on \<open>undefined\<close>.
\<close>

definition createRule ::
  "string \<Rightarrow> Disk \<Rightarrow> CreateArgs \<Rightarrow> RulesServer \<Rightarrow> (error + Rule) \<times> RulesServer" where
  "createRule now d args s =
     (case a_category args of
        None \<Rightarrow> (Inl TypeError, s)
      | Some cat \<Rightarrow>
         (let rule = \<lparr>rule_id = generateId (rules s) cat,
                     title = a_title args,
                     category = cat,
                     description = or_else (a_description args) [],
                     content = a_content args,
                     tags = or_else (a_tags args) [],
                     examples = or_else (a_examples args) [],
                     relatedRules = [],
                     timestamp = now,
                     version = ''1.0.0''\<rparr>;
              s1 = s\<lparr>rules := rules s @ [rule]\<rparr>;
              cats = (if list_ex (\<lambda>c. cat_name c = cat) (categories s1) then categories s1
                      else categories s1 @
                        [\<lparr>cat_name = cat, cat_description = ''Rules for '' @ cat,
                          cat_rules = []\<rparr>]);
              s2 = s1\<lparr>categories := update_found (\<lambda>c. cat_name c = cat)
                         (\<lambda>c. c\<lparr>cat_rules := cat_rules c @ [rule_id rule]\<rparr>) cats\<rparr>
          in (case saveRules d s2 of
                (Inl e, s3) \<Rightarrow> (Inl e, s3)
              | (Inr _, s3) \<Rightarrow> (Inr rule, s3))))"

record SearchArgs =
  q_query :: string
  q_category :: "string option"
  q_tags :: "string list option"
  q_limit :: "int option"

text \<open>The value of the variable \<open>filteredRules\<close> of \<open>searchRules\<close> once the filters are applied.\<close>

definition filteredRules :: "SearchArgs \<Rightarrow> Rule list \<Rightarrow> Rule list" where
  "filteredRules args rs =
     (let fr = rs;
          fr = (case q_category args of
                  None \<Rightarrow> fr
                | Some cat \<Rightarrow>
                    if cat = [] then fr
                    else filter (\<lambda>r. includes_str (toLowerCase (category r)) (toLowerCase cat)) fr);
          fr = (case q_tags args of
                  None \<Rightarrow> fr
                | Some ts \<Rightarrow>
                    if length ts > 0
                    then filter (\<lambda>r. list_ex (\<lambda>tag.
                           list_ex (\<lambda>ruleTag. includes_str (toLowerCase ruleTag) (toLowerCase tag))
                             (tags r)) ts) fr
                    else fr)
      in fr)"

text \<open>
  \<open>searchRules\<close> up to the formatting of its answer: the array \<open>results\<close>, each entry a rule
  with its similarity. The limit is an integer (the source hands whatever number it is given
  to \<open>slice\<close>, which truncates it).
\<close>

definition searchRules ::
  "engine \<Rightarrow> SearchArgs \<Rightarrow> RulesServer \<Rightarrow> error + (Rule \<times> nat) list" where
  "searchRules engine args s =
     (let limit = (case q_limit args of None \<Rightarrow> 5 | Some l \<Rightarrow> l) in
      (case map_throwing (\<lambda>rule.
              (case calculateSimilarity engine (q_query args) rule of
                 Inl e \<Rightarrow> Inl e
               | Inr similarity \<Rightarrow> Inr (rule, similarity)))
            (filteredRules args (rules s)) of
         Inl e \<Rightarrow> Inl e
       | Inr scored \<Rightarrow>
           Inr (slice0 limit
                 (sort_cmp (\<lambda>a b. int (snd b) - int (snd a))
                   (filter (\<lambda>result. snd result > 0) scored)))))"

record UpdateArgs =
  u_id :: string
  u_title :: "string option"
  u_category :: "string option"
  u_description :: "string option"
  u_content :: "string option"
  u_tags :: "string list option"
  u_examples :: "string list option"
  u_relatedRules :: "string list option"
  u_timestamp :: "string option"
  u_version :: "string option"

text \<open>
  The object spread \<open>{...rule, ...updates, timestamp: now}\<close>: a key of \<open>updates\<close> wins over
  the rule's, and the new timestamp over both. The key \<open>id\<close> never reaches \<open>updates\<close>.
\<close>

definition merge_updates :: "string \<Rightarrow> UpdateArgs \<Rightarrow> Rule \<Rightarrow> Rule" where
  "merge_updates now u r =
     \<lparr>rule_id = rule_id r,
      title = (case u_title u of None \<Rightarrow> title r | Some v \<Rightarrow> Some v),
      category = (case u_category u of None \<Rightarrow> category r | Some v \<Rightarrow> v),
      description = (case u_description u of None \<Rightarrow> description r | Some v \<Rightarrow> v),
      content = (case u_content u of None \<Rightarrow> content r | Some v \<Rightarrow> Some v),
      tags = (case u_tags u of None \<Rightarrow> tags r | Some v \<Rightarrow> v),
      examples = (case u_examples u of None \<Rightarrow> examples r | Some v \<Rightarrow> v),
      relatedRules = (case u_relatedRules u of None \<Rightarrow> relatedRules r | Some v \<Rightarrow> v),
      timestamp = now,
      version = (case u_version u of None \<Rightarrow> version r | Some v \<Rightarrow> v)\<rparr>"

definition updateRule ::
  "string \<Rightarrow> Disk \<Rightarrow> UpdateArgs \<Rightarrow> RulesServer \<Rightarrow> (error + unit) \<times> RulesServer" where
  "updateRule now d args s =
     (case findIndex (\<lambda>r. rule_id r = u_id args) (rules s) of
        None \<Rightarrow> (Inl (RuleNotFound (u_id args)), s)
      | Some ruleIndex \<Rightarrow>
          saveRules d
            (s\<lparr>rules := (rules s)[ruleIndex := merge_updates now args (rules s ! ruleIndex)]\<rparr>))"

definition deleteRule ::
  "Disk \<Rightarrow> string \<Rightarrow> RulesServer \<Rightarrow> (error + unit) \<times> RulesServer" where
  "deleteRule d ident s =
     (case findIndex (\<lambda>r. rule_id r = ident) (rules s) of
        None \<Rightarrow> (Inl (RuleNotFound ident), s)
      | Some ruleIndex \<Rightarrow>
          let rule = rules s ! ruleIndex;
              s1 = s\<lparr>rules := take ruleIndex (rules s) @ drop (Suc ruleIndex) (rules s)\<rparr>;
              s2 = s1\<lparr>categories := update_found (\<lambda>c. cat_name c = category rule)
                         (\<lambda>c. c\<lparr>cat_rules := filter (\<lambda>ruleId. ruleId \<noteq> ident) (cat_rules c)\<rparr>)
                         (categories s1)\<rparr>
          in saveRules d s2)"

section \<open>The memory server\<close>

text \<open>
  \<open>storeExperience\<close> copies \<open>args.project\<close>, \<open>args.category\<close>, \<open>args.title\<close> and
  \<open>args.content\<close> into the entry without looking at them (and \<open>importMemories\<close> appends
  the entries of a file as they are), so at run time these four fields of a stored memory
  may be \<open>undefined\<close>: they are options here, and a method called on an absent one is a
  \<open>TypeError\<close>. The tags and the context are taken as \<open>storeExperience\<close> makes them
  (\<open>args.tags || []\<close>, \<open>args.context || {}\<close>); the context object is the list of its
  entries in the order \<open>Object.values\<close> walks them.
\<close>

record MemoryEntry =
  m_id :: string
  m_project :: "string option"
  m_category :: "string option"
  m_title :: "string option"
  m_content :: "string option"
  m_tags :: "string list"
  m_timestamp :: string
  m_context :: "(string \<times> string) list"

definition calculateSimilarity_memory :: "engine \<Rightarrow> string \<Rightarrow> MemoryEntry \<Rightarrow> error + nat" where
  "calculateSimilarity_memory engine query memory =
     (let queryLower = toLowerCase query; score = 0 in
      (case m_title memory of
         None \<Rightarrow> Inl TypeError
       | Some t \<Rightarrow>
          (let score = (if includes_str (toLowerCase t) queryLower then score + 50 else score) in
           (case m_content memory of
              None \<Rightarrow> Inl TypeError
            | Some c \<Rightarrow>
               (case engine queryLower (toLowerCase c) of
                  Inl e \<Rightarrow> Inl e
                | Inr contentMatches \<Rightarrow>
                   (let score = score + contentMatches * 20;
                        tagMatches = length (filter (\<lambda>tag.
                            includes_str (toLowerCase tag) queryLower
                            \<or> includes_str queryLower (toLowerCase tag)) (m_tags memory));
                        score = score + tagMatches * 30;
                        contextText = toLowerCase (join '' '' (map snd (m_context memory)));
                        score = (if includes_str contextText queryLower
                                 then score + 25 else score)
                    in (case m_category memory of
                          None \<Rightarrow> Inl TypeError
                        | Some cat \<Rightarrow>
                           (let score = (if includes_str (toLowerCase cat) queryLower
                                         then score + 25 else score)
                            in Inr score))))))))"

record MemorySearchArgs =
  mq_query :: string
  mq_project :: "string option"
  mq_category :: "string option"
  mq_tags :: "string list option"
  mq_limit :: "int option"

text \<open>
  The value of the variable \<open>filteredMemories\<close> of \<open>searchMemories\<close> once the filters are
  applied, or the exception of the first filter callback that throws.
\<close>

definition filteredMemories ::
  "MemorySearchArgs \<Rightarrow> MemoryEntry list \<Rightarrow> error + MemoryEntry list" where
  "filteredMemories args ms =
     (let fm = ms in
      (case (case mq_project args of
               None \<Rightarrow> Inr fm
             | Some project \<Rightarrow>
                 if project = [] then Inr fm
                 else filter_throwing (\<lambda>m.
                        (case m_project m of
                           None \<Rightarrow> Inl TypeError
                         | Some p \<Rightarrow> Inr (includes_str (toLowerCase p) (toLowerCase project))))
                      fm) of
         Inl e \<Rightarrow> Inl e
       | Inr fm \<Rightarrow>
          (case (case mq_category args of
                   None \<Rightarrow> Inr fm
                 | Some cat \<Rightarrow>
                     if cat = [] then Inr fm
                     else filter_throwing (\<lambda>m.
                            (case m_category m of
                               None \<Rightarrow> Inl TypeError
                             | Some c \<Rightarrow> Inr (includes_str (toLowerCase c) (toLowerCase cat))))
                          fm) of
             Inl e \<Rightarrow> Inl e
           | Inr fm \<Rightarrow>
              (case mq_tags args of
                 None \<Rightarrow> Inr fm
               | Some ts \<Rightarrow>
                   if length ts > 0
                   then Inr (filter (\<lambda>m. list_ex (\<lambda>tag.
                          list_ex (\<lambda>memTag. includes_str (toLowerCase memTag) (toLowerCase tag))
                            (m_tags m)) ts) fm)
                   else Inr fm))))"

text \<open>
  \<open>searchMemories\<close> up to the formatting of its answer: each entry of the array \<open>results\<close>
  is a memory, its similarity and its relevant tags.
\<close>

definition searchMemories ::
  "engine \<Rightarrow> MemorySearchArgs \<Rightarrow> MemoryEntry list
     \<Rightarrow> error + (MemoryEntry \<times> nat \<times> string list) list" where
  "searchMemories engine args memories =
     (let limit = (case mq_limit args of None \<Rightarrow> 5 | Some l \<Rightarrow> l) in
      (case filteredMemories args memories of
         Inl e \<Rightarrow> Inl e
       | Inr fm \<Rightarrow>
          (case map_throwing (\<lambda>memory.
                  (case calculateSimilarity_memory engine (mq_query args) memory of
                     Inl e \<Rightarrow> Inl e
                   | Inr similarity \<Rightarrow>
                       Inr (memory, similarity,
                            filter (\<lambda>tag.
                                includes_str (toLowerCase tag) (toLowerCase (mq_query args))
                                \<or> includes_str (toLowerCase (mq_query args)) (toLowerCase tag))
                              (m_tags memory))))
                fm of
             Inl e \<Rightarrow> Inl e
           | Inr scored \<Rightarrow>
               Inr (slice0 limit
                     (sort_cmp (\<lambda>a b. int (fst (snd b)) - int (fst (snd a)))
                       (filter (\<lambda>result. fst (snd result) > 0) scored))))))"

text \<open>
  \<open>initializeDefaultRules\<close>, run by the first load on a machine without the storage
  directory; its arguments are the three clock readings and the answers of the file system.
\<close>

definition defaultCategories :: "RuleCategory list" where
  "defaultCategories =
     [\<lparr>cat_name = ''coding'', cat_description = ''Programming and development rules'',
       cat_rules = []\<rparr>,
      \<lparr>cat_name = ''git'', cat_description = ''Git workflow and versioning rules'',
       cat_rules = []\<rparr>,
      \<lparr>cat_name = ''security'', cat_description = ''Security best practices and rules'',
       cat_rules = []\<rparr>,
      \<lparr>cat_name = ''testing'', cat_description = ''Testing methodologies and practices'',
       cat_rules = []\<rparr>,
      \<lparr>cat_name = ''documentation'', cat_description = ''Documentation standards and guidelines'',
       cat_rules = []\<rparr>]"

definition defaultRules :: "string \<Rightarrow> string \<Rightarrow> string \<Rightarrow> Rule list" where
  "defaultRules t1 t2 t3 =
     [\<lparr>rule_id = ''coding-001'',
       title = Some ''Function Naming Convention'',
       category = ''coding'',
       description = ''Use descriptive and consistent function names'',
       content = Some (''Functions should have clear, descriptive names that indicate their ''
         @ ''purpose. Use camelCase for JavaScript/TypeScript, snake_case for Python, ''
         @ ''and follow language-specific conventions.''),
       tags = [''naming'', ''functions'', ''conventions''],
       examples = [''getUserData() instead of getData()'',
                   ''calculateTotalPrice() instead of calc()'',
                   ''validateEmailAddress() instead of check()''],
       relatedRules = [''coding-002''],
       timestamp = t1,
       version = ''1.0.0''\<rparr>,
      \<lparr>rule_id = ''git-001'',
       title = Some ''Commit Message Format'',
       category = ''git'',
       description = ''Use conventional commit messages'',
       content = Some (''Follow the format: type(scope): description'' @ [CHR 0x0A, CHR 0x0A]
         @ ''Types: feat, fix, docs, style, refactor, test, chore'' @ [CHR 0x0A]
         @ ''Scope: optional, indicates the area of change'' @ [CHR 0x0A]
         @ ''Description: brief summary in imperative mood''),
       tags = [''git'', ''commits'', ''messages''],
       examples = [''feat(auth): add user authentication'',
                   ''fix(api): resolve timeout issue'',
                   ''docs(readme): update installation guide''],
       relatedRules = [''git-002''],
       timestamp = t2,
       version = ''1.0.0''\<rparr>,
      \<lparr>rule_id = ''security-001'',
       title = Some ''Environment Variables'',
       category = ''security'',
       description = ''Never commit secrets to version control'',
       content = Some (''Store sensitive information like API keys, passwords, and tokens in ''
         @ ''environment variables. Use .env files for local development and ensure they''
         @ [CHR 0x27] @ ''re in .gitignore.''),
       tags = [''security'', ''secrets'', ''environment''],
       examples = [''Use process.env.API_KEY instead of hardcoding'',
                   ''Add .env to .gitignore'',
                   ''Use different .env files for different environments''],
       relatedRules = [''security-002''],
       timestamp = t3,
       version = ''1.0.0''\<rparr>]"

definition initializeDefaultRules ::
  "string \<Rightarrow> string \<Rightarrow> string \<Rightarrow> Disk \<Rightarrow> RulesServer \<Rightarrow> (error + unit) \<times> RulesServer" where
  "initializeDefaultRules t1 t2 t3 d s =
     (let s1 = s\<lparr>categories := defaultCategories, rules := defaultRules t1 t2 t3\<rparr>;
          s2 = s1\<lparr>categories :=
                 map (\<lambda>c. c\<lparr>cat_rules :=
                        map rule_id (filter (\<lambda>rule. category rule = cat_name c) (rules s1))\<rparr>)
                   (categories s1)\<rparr>
      in saveRules d s2)"

text \<open>The server object as the constructor leaves it, before anything is loaded.\<close>

definition newServer :: RulesServer where
  "newServer = \<lparr>rules = [], categories = [], rulesFile = None, categoriesFile = None\<rparr>"

definition diskOk :: Disk where
  "diskOk = \<lparr>writeRulesOk = True, writeCategoriesOk = True\<rparr>"

definition freshInstall :: RulesServer where
  "freshInstall =
     snd (initializeDefaultRules ''2025-01-01T00:00:00.000Z'' ''2025-01-01T00:00:00.000Z''
            ''2025-01-01T00:00:00.001Z'' diskOk newServer)"

section \<open>The wording of the specification\<close>

text \<open>
  The number of occurrences of \<open>q\<close> in \<open>s\<close> that do not overlap, counted from the left: after
  an occurrence the count goes on behind it, and at least one code unit further (so the
  empty text occurs once at every position).
\<close>

fun occurrences :: "string \<Rightarrow> string \<Rightarrow> nat" where
  "occurrences q [] = (if q = [] then 1 else 0)"
| "occurrences q (x # xs) =
     (if prefix q (x # xs) then Suc (occurrences q (drop (length q - 1) xs))
      else occurrences q xs)"

text \<open>A query without a syntax character of the pattern language.\<close>

definition syntax_free :: "string \<Rightarrow> bool" where
  "syntax_free q = list_all (\<lambda>c. \<not> syntax_character c) q"

definition signal :: "bool \<Rightarrow> nat \<Rightarrow> nat" where
  "signal b w = (if b then w else 0)"

text \<open>
  The score of a rule with title \<open>t\<close> and content \<open>c\<close> as the scoring table words it: the sum
  of the title, tag, category, content, description and example signals.
\<close>

definition rule_signals :: "string \<Rightarrow> string \<Rightarrow> string \<Rightarrow> Rule \<Rightarrow> nat" where
  "rule_signals query t c r =
     signal (includes_str (toLowerCase t) (toLowerCase query)) 50
     + 40 * length (filter (\<lambda>T. includes_str (toLowerCase T) (toLowerCase query)
                              \<or> includes_str (toLowerCase query) (toLowerCase T)) (tags r))
     + signal (includes_str (toLowerCase (category r)) (toLowerCase query)) 30
     + 15 * occurrences (toLowerCase query) (toLowerCase c)
     + signal (includes_str (toLowerCase (description r)) (toLowerCase query)) 25
     + 10 * length (filter (\<lambda>e. includes_str (toLowerCase e) (toLowerCase query)) (examples r))"

text \<open>
  The same for a memory with title \<open>t\<close>, content \<open>c\<close> and category \<open>k\<close>, with its weights
  and its context signal.
\<close>

definition memory_signals :: "string \<Rightarrow> string \<Rightarrow> string \<Rightarrow> string \<Rightarrow> MemoryEntry \<Rightarrow> nat" where
  "memory_signals query t c k m =
     signal (includes_str (toLowerCase t) (toLowerCase query)) 50
     + 30 * length (filter (\<lambda>T. includes_str (toLowerCase T) (toLowerCase query)
                              \<or> includes_str (toLowerCase query) (toLowerCase T)) (m_tags m))
     + signal (includes_str (toLowerCase k) (toLowerCase query)) 25
     + 20 * occurrences (toLowerCase query) (toLowerCase c)
     + signal (includes_str (toLowerCase (join '' '' (map snd (m_context m))))
                 (toLowerCase query)) 25"

text \<open>
  The tags filter as the specification words it: a record is kept when one of its tags and
  one requested tag contain one another, in either direction.
\<close>

definition symmetric_tag_match :: "string list \<Rightarrow> string list \<Rightarrow> bool" where
  "symmetric_tag_match requested recordTags =
     list_ex (\<lambda>T. list_ex (\<lambda>Q.
         includes_str (toLowerCase T) (toLowerCase Q) \<or> includes_str (toLowerCase Q) (toLowerCase T))
       requested) recordTags"

text \<open>The id the specification describes for a new rule of category \<open>C\<close> in the store \<open>rs\<close>.\<close>

definition sequential_id :: "Rule list \<Rightarrow> string \<Rightarrow> string" where
  "sequential_id rs C =
     (let n = count_list (map category rs) C + 1
      in toLowerCase (take 3 C) @ ''-'' @ replicate (3 - length (toString n)) CHR ''0''
         @ toString n)"

text \<open>Small records and requests for the concrete cases below.\<close>

definition tinyRule :: Rule where
  "tinyRule =
     \<lparr>rule_id = ''tes-001'', title = Some ''Naming'', category = ''testing'',
      description = ''Names of tests'', content = Some ''ab'', tags = [''git''],
      examples = [], relatedRules = [], timestamp = ''2025-01-01T00:00:00.000Z'',
      version = ''1.0.0''\<rparr>"

definition tinyMemory :: MemoryEntry where
  "tinyMemory =
     \<lparr>m_id = ''mem_1_abc'', m_project = Some ''demo'', m_category = Some ''testing'',
      m_title = Some ''Naming'', m_content = Some ''ab'', m_tags = [''git''],
      m_timestamp = ''2025-01-01T00:00:00.000Z'',
      m_context = [(''language'', ''TypeScript''), (''problem'', ''flaky test'')]\<rparr>"

definition searchFor :: "string \<Rightarrow> SearchArgs" where
  "searchFor q = \<lparr>q_query = q, q_category = None, q_tags = None, q_limit = None\<rparr>"

definition searchMemoriesFor :: "string \<Rightarrow> MemorySearchArgs" where
  "searchMemoriesFor q =
     \<lparr>mq_query = q, mq_project = None, mq_category = None, mq_tags = None, mq_limit = None\<rparr>"

definition noUpdates :: "string \<Rightarrow> UpdateArgs" where
  "noUpdates ident =
     \<lparr>u_id = ident, u_title = None, u_category = None, u_description = None, u_content = None,
      u_tags = None, u_examples = None, u_relatedRules = None, u_timestamp = None,
      u_version = None\<rparr>"

definition newRule :: "string \<Rightarrow> string \<Rightarrow> string \<Rightarrow> CreateArgs" where
  "newRule t cat c =
     \<lparr>a_title = Some t, a_category = Some cat, a_description = None, a_content = Some c,
      a_tags = None, a_examples = None\<rparr>"

definition threeMemories :: "MemoryEntry list" where
  "threeMemories =
     [tinyMemory,
      tinyMemory\<lparr>m_id := ''mem_2_def'', m_content := Some ''naming again''\<rparr>,
      tinyMemory\<lparr>m_id := ''mem_3_ghi''\<rparr>]"

text \<open>
  A field under a partial update: with a value supplied the field takes it, without one it
  keeps its old value.
\<close>

definition replaced :: "'a option \<Rightarrow> 'a \<Rightarrow> 'a \<Rightarrow> bool" where
  "replaced u old new = (case u of None \<Rightarrow> new = old | Some v \<Rightarrow> new = v)"

text \<open>Requests for the concrete cases.\<close>

definition laterInstant :: string where
  "laterInstant = ''2025-02-02T00:00:00.000Z''"

definition branchRule :: CreateArgs where
  "branchRule = newRule ''Branch names'' ''git'' ''Use short branch names''"

definition pullRequestRule :: CreateArgs where
  "pullRequestRule = newRule ''Pull requests'' ''github'' ''Open a pull request''"

definition untitledRule :: CreateArgs where
  "untitledRule =
     \<lparr>a_title = None, a_category = Some ''git'', a_description = None, a_content = None,
      a_tags = None, a_examples = None\<rparr>"

definition retitle :: UpdateArgs where
  "retitle = (noUpdates ''git-001'')\<lparr>u_title := Some ''Commit messages''\<rparr>"

definition recategorise :: UpdateArgs where
  "recategorise = (noUpdates ''git-001'')\<lparr>u_category := Some ''workflow''\<rparr>"

section \<open>Facts about the host operations\<close>

subsection \<open>Substrings and literal patterns\<close>

lemma includes_str_iff: "includes_str s t \<longleftrightarrow> (\<exists>a b. s = a @ t @ b)"
proof (induction s)
  case Nil
  then show ?case by auto
next
  case (Cons x xs)
  show ?case
  proof
    assume "includes_str (x # xs) t"
    then consider "prefix t (x # xs)" | "includes_str xs t" by auto
    then show "\<exists>a b. x # xs = a @ t @ b"
    proof cases
      case 1
      then obtain b where "x # xs = t @ b" by (auto simp: prefix_def)
      then have "x # xs = [] @ t @ b" by simp
      then show ?thesis by blast
    next
      case 2
      with Cons.IH obtain a b where "xs = a @ t @ b" by blast
      then have "x # xs = (x # a) @ t @ b" by simp
      then show ?thesis by blast
    qed
  next
    assume "\<exists>a b. x # xs = a @ t @ b"
    then obtain a b where ab: "x # xs = a @ t @ b" by blast
    show "includes_str (x # xs) t"
    proof (cases a)
      case Nil
      with ab have "prefix t (x # xs)" by (simp add: prefix_def)
      then show ?thesis by simp
    next
      case (Cons y ys)
      with ab have "xs = ys @ t @ b" by simp
      with Cons.IH have "includes_str xs t" by blast
      then show ?thesis by simp
    qed
  qed
qed

lemma parse_literal:
  "syntax_free q \<Longrightarrow> \<not> escaped p \<Longrightarrow> outer p = [] \<Longrightarrow>
   parse_units p q = Compiled (close_alternatives (alts p) (rev (map Chr q) @ terms p))"
proof (induction q arbitrary: p)
  case Nil
  then show ?case by simp
next
  case (Cons c cs)
  from Cons.prems have c: "\<not> syntax_character c" and cs: "syntax_free cs"
    by (simp_all add: syntax_free_def)
  from c Cons.prems(2) have step:
    "parse_unit p c = Next (p\<lparr>terms := Chr c # terms p, lastread := Atom\<rparr>)"
    by (auto simp: parse_unit_def syntax_character_def)
  show ?case
    using Cons.IH [OF cs, of "p\<lparr>terms := Chr c # terms p, lastread := Atom\<rparr>"] Cons.prems step
    by simp
qed

lemma RegExp_new_literal: "syntax_free q \<Longrightarrow> RegExp_new q = Compiled (seq_of (map Chr q))"
  by (simp add: RegExp_new_def parse_literal close_alternatives_def)

lemma matches_literal:
  "matches (seq_of (map Chr q)) s = (if prefix q s then [drop (length q) s] else [])"
proof (induction q arbitrary: s)
  case Nil
  then show ?case by simp
next
  case (Cons c cs)
  then show ?case by (cases s) auto
qed

lemma match_count_exec: "exec re s = exec re s' \<Longrightarrow> match_count re s = match_count re s'"
  by (subst match_count.simps, subst (2) match_count.simps) simp

lemma match_count_found:
  "exec re s = Some (u, r) \<Longrightarrow>
   match_count re s =
     (if length r < length u then Suc (match_count re r)
      else (case u of [] \<Rightarrow> 1 | _ # t \<Rightarrow> Suc (match_count re t)))"
  by (subst match_count.simps) simp

lemma match_count_none: "exec re s = None \<Longrightarrow> match_count re s = 0"
  by (subst match_count.simps) simp

lemma match_count_literal: "match_count (seq_of (map Chr q)) s = occurrences q s"
proof (induction q s rule: occurrences.induct)
  case (1 q)
  let ?re = "seq_of (map Chr q)"
  show ?case
  proof (cases q)
    case Nil
    then have "exec ?re [] = Some ([], [])" by simp
    from match_count_found [OF this] Nil show ?thesis by simp
  next
    case (Cons c cs)
    then have "exec ?re [] = None" by simp
    from match_count_none [OF this] Cons show ?thesis by simp
  qed
next
  case (2 q x xs)
  let ?re = "seq_of (map Chr q)"
  show ?case
  proof (cases "prefix q (x # xs)")
    case False
    then have "exec ?re (x # xs) = exec ?re xs" by (simp add: matches_literal)
    then have "match_count ?re (x # xs) = match_count ?re xs" by (rule match_count_exec)
    with False 2 show ?thesis by simp
  next
    case True
    then have ex: "exec ?re (x # xs) = Some (x # xs, drop (length q) (x # xs))"
      by (simp add: matches_literal)
    have ih: "match_count ?re (drop (length q - 1) xs) = occurrences q (drop (length q - 1) xs)"
      using 2 True by simp
    show ?thesis
    proof (cases q)
      case Nil
      then have "\<not> length (drop (length q) (x # xs)) < length (x # xs)" by simp
      with match_count_found [OF ex]
      have "match_count ?re (x # xs) = Suc (match_count ?re xs)" by simp
      with ih True Nil show ?thesis by simp
    next
      case (Cons c cs)
      then have d: "drop (length q) (x # xs) = drop (length q - 1) xs" by simp
      from Cons have "length (drop (length q) (x # xs)) < length (x # xs)" by simp
      with match_count_found [OF ex]
      have "match_count ?re (x # xs) = Suc (match_count ?re (drop (length q) (x # xs)))"
        by (simp only: if_True)
      with ih True d show ?thesis by simp
    qed
  qed
qed

lemma syntax_character_code:
  "syntax_character c \<longleftrightarrow> (of_char c :: nat) \<in> {92, 94, 36, 46, 42, 43, 63, 40, 41, 91, 93, 123, 125, 124}"
proof -
  have e: "(c = d) \<longleftrightarrow> (of_char c :: nat) = of_char d" for d by auto
  show ?thesis
    unfolding syntax_character_def by (simp add: e)
qed

lemma syntax_character_lower: "syntax_character (toLowerCase_unit c) \<Longrightarrow> syntax_character c"
proof -
  assume a: "syntax_character (toLowerCase_unit c)"
  define n where "n = (of_char c :: nat)"
  show ?thesis
  proof (cases "(65 \<le> n \<and> n \<le> 90) \<or> (192 \<le> n \<and> n \<le> 222 \<and> n \<noteq> 215)")
    case False
    then have "toLowerCase_unit c = c" by (auto simp: toLowerCase_unit_def n_def Let_def)
    with a show ?thesis by simp
  next
    case True
    then have "toLowerCase_unit c = char_of (n + 32)"
      by (auto simp: toLowerCase_unit_def n_def Let_def)
    moreover from True have "(n + 32) mod 256 = n + 32" by auto
    ultimately have "(of_char (toLowerCase_unit c) :: nat) = n + 32" by simp
    with a have "n + 32 \<in> {92, 94, 36, 46, 42, 43, 63, 40, 41, 91, 93, 123, 125, 124 :: nat}"
      by (simp only: syntax_character_code)
    with True show ?thesis by simp arith
  qed
qed

lemma syntax_free_lower: "syntax_free q \<Longrightarrow> syntax_free (toLowerCase q)"
  by (auto simp: syntax_free_def toLowerCase_def list_all_iff dest: syntax_character_lower)

lemma fragment_engine_literal:
  "syntax_free q \<Longrightarrow> fragment_engine q s = Inr (occurrences q s)"
  by (simp add: fragment_engine_def RegExp_new_literal match_count_literal)

subsection \<open>Mapping, sorting and slicing\<close>

lemma map_throwing_Inr:
  "map_throwing f xs = Inr ys \<Longrightarrow> list_all2 (\<lambda>x y. f x = Inr y) xs ys"
  by (induction xs arbitrary: ys) (auto split: sum.splits)

lemma map_throwing_total:
  "(\<And>x. x \<in> set xs \<Longrightarrow> \<exists>y. f x = Inr y) \<Longrightarrow> \<exists>ys. map_throwing f xs = Inr ys"
proof (induction xs)
  case Nil
  then show ?case by simp
next
  case (Cons x xs)
  then obtain y ys where "f x = Inr y" "map_throwing f xs = Inr ys" by (meson list.set_intros)
  then show ?case by simp
qed

lemma filter_throwing_total:
  "(\<And>x. x \<in> set xs \<Longrightarrow> p x = Inr (P x)) \<Longrightarrow> filter_throwing p xs = Inr (filter P xs)"
  by (induction xs) simp_all

lemma filter_throwing_subset: "filter_throwing p xs = Inr ys \<Longrightarrow> set ys \<subseteq> set xs"
  by (induction xs arbitrary: ys) (auto split: sum.splits if_splits)

lemma scored_items:
  "list_all2 (\<lambda>x y. g x = Inr (key y) \<and> item y = x) xs ys \<Longrightarrow>
   map item (filter (\<lambda>y. key y = v) ys) = filter (\<lambda>x. g x = Inr v) xs"
  by (induction xs ys rule: list_all2_induct) auto

lemma set_insert_cmp: "set (insert_cmp cmp x ys) = insert x (set ys)"
  by (induction ys) auto

lemma set_sort_cmp: "set (sort_cmp cmp xs) = set xs"
  by (induction xs) (auto simp: sort_cmp_def set_insert_cmp)

lemma sorted_insert_cmp:
  "sorted_wrt (\<lambda>a b. key b \<le> key a) ys \<Longrightarrow>
   sorted_wrt (\<lambda>a b. key b \<le> key a) (insert_cmp (\<lambda>a b. int (key b) - int (key a)) x ys)"
  by (induction ys) (auto simp: set_insert_cmp)

lemma sorted_sort_cmp:
  "sorted_wrt (\<lambda>a b. key b \<le> key a) (sort_cmp (\<lambda>a b. int (key b) - int (key a)) xs)"
  by (induction xs) (auto simp: sort_cmp_def sorted_insert_cmp)

lemma filter_insert_cmp:
  "filter (\<lambda>y. key y = v) (insert_cmp (\<lambda>a b. int (key b) - int (key a)) x ys) =
   (if key x = v then x # filter (\<lambda>y. key y = v) ys else filter (\<lambda>y. key y = v) ys)"
  by (induction ys) auto

lemma filter_sort_cmp:
  "filter (\<lambda>y. key y = v) (sort_cmp (\<lambda>a b. int (key b) - int (key a)) xs) =
   filter (\<lambda>y. key y = v) xs"
  by (induction xs) (auto simp: sort_cmp_def filter_insert_cmp)

lemma prefix_slice0: "prefix (slice0 e xs) xs"
  by (simp add: slice0_def take_is_prefix)

lemma length_slice0: "0 \<le> e \<Longrightarrow> int (length (slice0 e xs)) \<le> e"
  by (simp add: slice0_def)

lemma prefix_filter: "prefix xs ys \<Longrightarrow> prefix (filter P xs) (filter P ys)"
  by (auto simp: prefix_def)

lemma prefix_map: "prefix xs ys \<Longrightarrow> prefix (map f xs) (map f ys)"
  by (auto simp: prefix_def)

lemma sorted_wrt_prefix: "prefix xs ys \<Longrightarrow> sorted_wrt R ys \<Longrightarrow> sorted_wrt R xs"
  by (auto simp: prefix_def sorted_wrt_append)

lemma list_all2_set2: "list_all2 P xs ys \<Longrightarrow> y \<in> set ys \<Longrightarrow> \<exists>x\<in>set xs. P x y"
  by (induction xs ys rule: list_all2_induct) auto

lemma ranked:
  assumes sc: "list_all2 (\<lambda>x y. g x = Inr (key y) \<and> item y = x) xs ys"
    and res: "res = slice0 e (sort_cmp (\<lambda>a b. int (key b) - int (key a)) (filter (\<lambda>y. key y > 0) ys))"
  shows "sorted_wrt (\<lambda>a b. key b \<le> key a) res"
    and "prefix (map item (filter (\<lambda>y. key y = v) res)) (filter (\<lambda>x. g x = Inr v) xs)"
    and "y \<in> set res \<Longrightarrow> item y \<in> set xs \<and> g (item y) = Inr (key y) \<and> 0 < key y"
    and "0 \<le> e \<Longrightarrow> int (length res) \<le> e"
proof -
  let ?cmp = "\<lambda>a b. int (key b) - int (key a)"
  let ?pos = "filter (\<lambda>y. key y > 0) ys"
  have p: "prefix res (sort_cmp ?cmp ?pos)" unfolding res by (rule prefix_slice0)
  show "sorted_wrt (\<lambda>a b. key b \<le> key a) res"
    using p sorted_sort_cmp [of key ?pos] by (rule sorted_wrt_prefix)
  have "prefix (filter (\<lambda>y. key y = v) res) (filter (\<lambda>y. key y = v) (sort_cmp ?cmp ?pos))"
    using p by (rule prefix_filter)
  then have "prefix (filter (\<lambda>y. key y = v) res) (filter (\<lambda>y. key y = v) ?pos)"
    by (simp only: filter_sort_cmp)
  moreover have "prefix (filter (\<lambda>y. key y = v) ?pos) (filter (\<lambda>y. key y = v) ys)"
  proof (cases "0 < v")
    case True
    then have "filter (\<lambda>y. key y = v) ?pos = filter (\<lambda>y. key y = v) ys"
      by (auto intro: filter_cong)
    then show ?thesis by simp
  next
    case False
    then have "filter (\<lambda>y. key y = v) ?pos = []" by (auto simp: filter_empty_conv)
    then show ?thesis by simp
  qed
  ultimately have "prefix (filter (\<lambda>y. key y = v) res) (filter (\<lambda>y. key y = v) ys)"
    by (rule prefix_order.trans)
  then have "prefix (map item (filter (\<lambda>y. key y = v) res)) (map item (filter (\<lambda>y. key y = v) ys))"
    by (rule prefix_map)
  then show "prefix (map item (filter (\<lambda>y. key y = v) res)) (filter (\<lambda>x. g x = Inr v) xs)"
    by (simp only: scored_items [OF sc])
  show "item y \<in> set xs \<and> g (item y) = Inr (key y) \<and> 0 < key y" if "y \<in> set res"
  proof -
    from that p have "y \<in> set (sort_cmp ?cmp ?pos)" by (auto simp: prefix_def)
    then have y: "y \<in> set ys" "0 < key y" by (simp_all add: set_sort_cmp)
    from list_all2_set2 [OF sc y(1)]
    obtain x where "x \<in> set xs" "g x = Inr (key y) \<and> item y = x" by blast
    with y show ?thesis by auto
  qed
  show "int (length res) \<le> e" if "0 \<le> e"
    unfolding res using that by (rule length_slice0)
qed

section \<open>The claims\<close>

subsection \<open>Ranking and limiting\<close>

lemma searchRules_scored:
  assumes "searchRules engine args s = Inr res"
  obtains scored where
    "list_all2 (\<lambda>r y. calculateSimilarity engine (q_query args) r = Inr (snd y) \<and> fst y = r)
       (filteredRules args (rules s)) scored"
    "res = slice0 (case q_limit args of None \<Rightarrow> 5 | Some l \<Rightarrow> l)
             (sort_cmp (\<lambda>a b. int (snd b) - int (snd a)) (filter (\<lambda>y. snd y > 0) scored))"
proof -
  let ?f = "\<lambda>rule. (case calculateSimilarity engine (q_query args) rule of
                 Inl e \<Rightarrow> Inl e | Inr similarity \<Rightarrow> Inr (rule, similarity))"
  from assms obtain scored where m: "map_throwing ?f (filteredRules args (rules s)) = Inr scored"
    and r: "res = slice0 (case q_limit args of None \<Rightarrow> 5 | Some l \<Rightarrow> l)
             (sort_cmp (\<lambda>a b. int (snd b) - int (snd a)) (filter (\<lambda>y. snd y > 0) scored))"
    by (auto simp: searchRules_def Let_def split: sum.splits)
  from map_throwing_Inr [OF m]
  have "list_all2 (\<lambda>r y. calculateSimilarity engine (q_query args) r = Inr (snd y) \<and> fst y = r)
       (filteredRules args (rules s)) scored"
    by (rule list_all2_mono) (auto split: sum.splits)
  then show thesis using r by (rule that)
qed

lemma searchMemories_scored:
  assumes "searchMemories engine args ms = Inr res"
  obtains fm scored where
    "filteredMemories args ms = Inr fm"
    "list_all2 (\<lambda>m y. calculateSimilarity_memory engine (mq_query args) m = Inr (fst (snd y))
                      \<and> fst y = m)
       fm scored"
    "res = slice0 (case mq_limit args of None \<Rightarrow> 5 | Some l \<Rightarrow> l)
             (sort_cmp (\<lambda>a b. int (fst (snd b)) - int (fst (snd a)))
               (filter (\<lambda>y. fst (snd y) > 0) scored))"
proof -
  let ?f = "\<lambda>memory. (case calculateSimilarity_memory engine (mq_query args) memory of
                 Inl e \<Rightarrow> Inl e
               | Inr similarity \<Rightarrow>
                   Inr (memory, similarity,
                        filter (\<lambda>tag.
                            includes_str (toLowerCase tag) (toLowerCase (mq_query args))
                            \<or> includes_str (toLowerCase (mq_query args)) (toLowerCase tag))
                          (m_tags memory)))"
  from assms obtain fm scored where f: "filteredMemories args ms = Inr fm"
    and m: "map_throwing ?f fm = Inr scored"
    and r: "res = slice0 (case mq_limit args of None \<Rightarrow> 5 | Some l \<Rightarrow> l)
             (sort_cmp (\<lambda>a b. int (fst (snd b)) - int (fst (snd a)))
               (filter (\<lambda>y. fst (snd y) > 0) scored))"
    by (auto simp: searchMemories_def Let_def split: sum.splits)
  from map_throwing_Inr [OF m]
  have "list_all2 (\<lambda>m y. calculateSimilarity_memory engine (mq_query args) m = Inr (fst (snd y))
                      \<and> fst y = m)
       fm scored"
    by (rule list_all2_mono) (auto split: sum.splits)
  with f show thesis using r by (rule that)
qed

lemma filteredMemories_subset: "filteredMemories args ms = Inr fm \<Longrightarrow> set fm \<subseteq> set ms"
proof -
  assume a: "filteredMemories args ms = Inr fm"
  then obtain f1 f2 where
    1: "f1 = ms \<or> (\<exists>p. filter_throwing p ms = Inr f1)"
    and 2: "f2 = f1 \<or> (\<exists>p. filter_throwing p f1 = Inr f2)"
    and 3: "fm = f2 \<or> (\<exists>P. fm = filter P f2)"
    by (auto simp: filteredMemories_def Let_def split: sum.splits option.splits if_splits)
  from 1 have "set f1 \<subseteq> set ms" by (auto dest: filter_throwing_subset)
  moreover from 2 have "set f2 \<subseteq> set f1" by (auto dest: filter_throwing_subset)
  moreover from 3 have "set fm \<subseteq> set f2" by auto
  ultimately show ?thesis by blast
qed

lemma filteredMemories_present:
  assumes "\<And>m. m \<in> set ms \<Longrightarrow> m_project m \<noteq> None \<and> m_category m \<noteq> None"
  shows "\<exists>fm. filteredMemories args ms = Inr fm"
proof -
  have pr: "\<exists>f1. filter_throwing (\<lambda>m. (case m_project m of None \<Rightarrow> Inl TypeError
              | Some p \<Rightarrow> Inr (includes_str (toLowerCase p) (toLowerCase project)))) ms = Inr f1"
    for project
    by (rule exI, rule filter_throwing_total
          [where P = "\<lambda>m. includes_str (toLowerCase (the (m_project m))) (toLowerCase project)"])
       (use assms in \<open>fastforce split: option.splits\<close>)
  have ca: "\<exists>f2. filter_throwing (\<lambda>m. (case m_category m of None \<Rightarrow> Inl TypeError
              | Some c \<Rightarrow> Inr (includes_str (toLowerCase c) (toLowerCase cat)))) f1 = Inr f2"
    if "set f1 \<subseteq> set ms" for cat f1
    by (rule exI, rule filter_throwing_total
          [where P = "\<lambda>m. includes_str (toLowerCase (the (m_category m))) (toLowerCase cat)"])
       (use assms that in \<open>fastforce split: option.splits\<close>)
  have "\<exists>f1. (case mq_project args of
               None \<Rightarrow> Inr ms
             | Some project \<Rightarrow>
                 if project = [] then Inr ms
                 else filter_throwing (\<lambda>m.
                        (case m_project m of
                           None \<Rightarrow> Inl TypeError
                         | Some p \<Rightarrow> Inr (includes_str (toLowerCase p) (toLowerCase project))))
                      ms) = Inr f1"
  proof (cases "mq_project args")
    case None
    then show ?thesis by simp
  next
    case (Some project)
    with pr [of project] show ?thesis by (cases "project = []") simp_all
  qed
  then obtain f1 where f1: "(case mq_project args of
               None \<Rightarrow> Inr ms
             | Some project \<Rightarrow>
                 if project = [] then Inr ms
                 else filter_throwing (\<lambda>m.
                        (case m_project m of
                           None \<Rightarrow> Inl TypeError
                         | Some p \<Rightarrow> Inr (includes_str (toLowerCase p) (toLowerCase project))))
                      ms) = Inr f1"
    by blast
  then have s1: "set f1 \<subseteq> set ms"
    by (auto split: option.splits if_splits dest: filter_throwing_subset)
  have "\<exists>f2. (case mq_category args of
                   None \<Rightarrow> Inr f1
                 | Some cat \<Rightarrow>
                     if cat = [] then Inr f1
                     else filter_throwing (\<lambda>m.
                            (case m_category m of
                               None \<Rightarrow> Inl TypeError
                             | Some c \<Rightarrow> Inr (includes_str (toLowerCase c) (toLowerCase cat))))
                          f1) = Inr f2"
  proof (cases "mq_category args")
    case None
    then show ?thesis by simp
  next
    case (Some cat)
    with ca [OF s1, of cat] show ?thesis by (cases "cat = []") simp_all
  qed
  then obtain f2 where f2: "(case mq_category args of
                   None \<Rightarrow> Inr f1
                 | Some cat \<Rightarrow>
                     if cat = [] then Inr f1
                     else filter_throwing (\<lambda>m.
                            (case m_category m of
                               None \<Rightarrow> Inl TypeError
                             | Some c \<Rightarrow> Inr (includes_str (toLowerCase c) (toLowerCase cat))))
                          f1) = Inr f2"
    by blast
  from f1 f2 show ?thesis
    by (simp add: filteredMemories_def Let_def split: option.splits)
qed

text \<open>
  A search returns whenever the engine accepts the query on the content of every candidate
  and, for rules, every candidate has its title and content; with the engine fragment this
  is the case for every query without a syntax character.
\<close>

lemma searchRules_returns:
  assumes "\<And>r. r \<in> set (filteredRules args (rules s)) \<Longrightarrow>
             \<exists>t c n. title r = Some t \<and> content r = Some c
                \<and> engine (toLowerCase (q_query args)) (toLowerCase c) = Inr n"
  shows "\<exists>res. searchRules engine args s = Inr res"
proof -
  let ?f = "\<lambda>rule. (case calculateSimilarity engine (q_query args) rule of
                 Inl e \<Rightarrow> Inl e | Inr similarity \<Rightarrow> Inr (rule, similarity))"
  have "\<exists>y. ?f r = Inr y" if "r \<in> set (filteredRules args (rules s))" for r
  proof -
    from assms [OF that] obtain t c n where "title r = Some t" "content r = Some c"
      "engine (toLowerCase (q_query args)) (toLowerCase c) = Inr n" by blast
    then show ?thesis by (simp add: calculateSimilarity_def Let_def)
  qed
  then obtain scored where "map_throwing ?f (filteredRules args (rules s)) = Inr scored"
    using map_throwing_total [of "filteredRules args (rules s)" ?f] by blast
  then show ?thesis by (simp add: searchRules_def Let_def)
qed

lemma searchMemories_returns:
  assumes "filteredMemories args ms = Inr fm"
    and "\<And>m. m \<in> set fm \<Longrightarrow>
             \<exists>t c k n. m_title m = Some t \<and> m_content m = Some c \<and> m_category m = Some k
                \<and> engine (toLowerCase (mq_query args)) (toLowerCase c) = Inr n"
  shows "\<exists>res. searchMemories engine args ms = Inr res"
proof -
  let ?f = "\<lambda>memory. (case calculateSimilarity_memory engine (mq_query args) memory of
                 Inl e \<Rightarrow> Inl e
               | Inr similarity \<Rightarrow>
                   Inr (memory, similarity,
                        filter (\<lambda>tag.
                            includes_str (toLowerCase tag) (toLowerCase (mq_query args))
                            \<or> includes_str (toLowerCase (mq_query args)) (toLowerCase tag))
                          (m_tags memory)))"
  have "\<exists>y. ?f m = Inr y" if "m \<in> set fm" for m
  proof -
    from assms(2) [OF that] obtain t c k n where "m_title m = Some t" "m_content m = Some c"
      "m_category m = Some k"
      "engine (toLowerCase (mq_query args)) (toLowerCase c) = Inr n" by blast
    then show ?thesis by (simp add: calculateSimilarity_memory_def Let_def)
  qed
  then obtain scored where "map_throwing ?f fm = Inr scored"
    using map_throwing_total [of fm ?f] by blast
  with assms(1) show ?thesis by (simp add: searchMemories_def Let_def)
qed

lemma literal_search_returns:
  assumes "syntax_free (q_query args)" "syntax_free (mq_query margs)"
    and "\<And>r. r \<in> set (rules s) \<Longrightarrow> title r \<noteq> None \<and> content r \<noteq> None"
    and "\<And>m. m \<in> set ms \<Longrightarrow> m_project m \<noteq> None \<and> m_category m \<noteq> None
                 \<and> m_title m \<noteq> None \<and> m_content m \<noteq> None"
  shows "\<exists>res. searchRules fragment_engine args s = Inr res"
    and "\<exists>mres. searchMemories fragment_engine margs ms = Inr mres"
proof -
  have sub: "set (filteredRules args (rules s)) \<subseteq> set (rules s)"
    by (auto simp: filteredRules_def Let_def split: option.splits if_splits)
  show "\<exists>res. searchRules fragment_engine args s = Inr res"
  proof (rule searchRules_returns)
    fix r assume "r \<in> set (filteredRules args (rules s))"
    with sub assms(3) obtain t c where "title r = Some t" "content r = Some c" by blast
    with assms(1) show "\<exists>t c n. title r = Some t \<and> content r = Some c
        \<and> fragment_engine (toLowerCase (q_query args)) (toLowerCase c) = Inr n"
      by (simp add: fragment_engine_literal syntax_free_lower)
  qed
  from assms(4) obtain fm where fm: "filteredMemories margs ms = Inr fm"
    using filteredMemories_present [of ms margs] by blast
  show "\<exists>mres. searchMemories fragment_engine margs ms = Inr mres"
  proof (rule searchMemories_returns [OF fm])
    fix m assume "m \<in> set fm"
    with filteredMemories_subset [OF fm] have "m \<in> set ms" by blast
    from assms(4) [OF this] obtain t c k where
      "m_title m = Some t" "m_content m = Some c" "m_category m = Some k" by blast
    with assms(2) show "\<exists>t c k n. m_title m = Some t \<and> m_content m = Some c
        \<and> m_category m = Some k
        \<and> fragment_engine (toLowerCase (mq_query margs)) (toLowerCase c) = Inr n"
      by (simp add: fragment_engine_literal syntax_free_lower)
  qed
qed

text \<open>
  Claim C6. Whatever the pattern engine, the store, the query, the filters and the limit:
  when a search returns, its entries are in non-increasing order of score, and for every
  score \<open>v\<close> the returned records of score \<open>v\<close> are, in the same order, the first ones of
  score \<open>v\<close> in the output of the filter; so entries of equal score keep the order the
  filter gave them. This holds for the rule search and for the memory search.
\<close>

theorem search_sorted_and_stable:
  "(searchRules engine args s = Inr res \<longrightarrow>
      sorted_wrt (\<lambda>a b. snd b \<le> snd a) res
      \<and> (\<forall>v. prefix (map fst (filter (\<lambda>y. snd y = v) res))
                 (filter (\<lambda>r. calculateSimilarity engine (q_query args) r = Inr v)
                    (filteredRules args (rules s)))))
   \<and> (searchMemories engine margs ms = Inr mres \<longrightarrow>
      sorted_wrt (\<lambda>a b. fst (snd b) \<le> fst (snd a)) mres
      \<and> (\<exists>fm. filteredMemories margs ms = Inr fm
            \<and> (\<forall>v. prefix (map fst (filter (\<lambda>y. fst (snd y) = v) mres))
                 (filter (\<lambda>m. calculateSimilarity_memory engine (mq_query margs) m = Inr v)
                    fm))))"
proof (intro conjI impI allI)
  assume "searchRules engine args s = Inr res"
  then obtain scored where sc:
    "list_all2 (\<lambda>r y. calculateSimilarity engine (q_query args) r = Inr (snd y) \<and> fst y = r)
       (filteredRules args (rules s)) scored"
    "res = slice0 (case q_limit args of None \<Rightarrow> 5 | Some l \<Rightarrow> l)
             (sort_cmp (\<lambda>a b. int (snd b) - int (snd a)) (filter (\<lambda>y. snd y > 0) scored))"
    by (rule searchRules_scored)
  show "sorted_wrt (\<lambda>a b. snd b \<le> snd a) res" using sc by (rule ranked(1))
  show "prefix (map fst (filter (\<lambda>y. snd y = v) res))
          (filter (\<lambda>r. calculateSimilarity engine (q_query args) r = Inr v)
             (filteredRules args (rules s)))" for v
    using sc by (rule ranked(2))
next
  assume "searchMemories engine margs ms = Inr mres"
  then obtain fm scored where fm: "filteredMemories margs ms = Inr fm" and sc:
    "list_all2 (\<lambda>m y. calculateSimilarity_memory engine (mq_query margs) m = Inr (fst (snd y))
                      \<and> fst y = m)
       fm scored"
    "mres = slice0 (case mq_limit margs of None \<Rightarrow> 5 | Some l \<Rightarrow> l)
             (sort_cmp (\<lambda>a b. int (fst (snd b)) - int (fst (snd a)))
               (filter (\<lambda>y. fst (snd y) > 0) scored))"
    by (rule searchMemories_scored)
  show "sorted_wrt (\<lambda>a b. fst (snd b) \<le> fst (snd a)) mres"
    using sc by (rule ranked(1) [where key = "\<lambda>y. fst (snd y)"])
  have "prefix (map fst (filter (\<lambda>y. fst (snd y) = v) mres))
          (filter (\<lambda>m. calculateSimilarity_memory engine (mq_query margs) m = Inr v) fm)" for v
    using sc by (rule ranked(2) [where key = "\<lambda>y. fst (snd y)"])
  with fm show "\<exists>fm. filteredMemories margs ms = Inr fm
            \<and> (\<forall>v. prefix (map fst (filter (\<lambda>y. fst (snd y) = v) mres))
                 (filter (\<lambda>m. calculateSimilarity_memory engine (mq_query margs) m = Inr v)
                    fm))"
    by blast
qed

theorem search_sorted_and_stable_witness:
  "(\<exists>res. searchRules fragment_engine (searchFor ''use'') freshInstall = Inr res
      \<and> map (\<lambda>y. (rule_id (fst y), snd y)) res
          = [(''coding-001'', 50), (''git-001'', 35), (''security-001'', 35)]
      \<and> sorted_wrt (\<lambda>a b. snd b \<le> snd a) res
      \<and> (\<forall>v. prefix (map fst (filter (\<lambda>y. snd y = v) res))
                 (filter (\<lambda>r. calculateSimilarity fragment_engine
                                 (q_query (searchFor ''use'')) r = Inr v)
                    (filteredRules (searchFor ''use'') (rules freshInstall)))))
   \<and> (\<exists>mres. searchMemories fragment_engine (searchMemoriesFor ''naming'') threeMemories = Inr mres
      \<and> map (\<lambda>y. (m_id (fst y), fst (snd y))) mres
          = [(''mem_2_def'', 70), (''mem_1_abc'', 50), (''mem_3_ghi'', 50)]
      \<and> sorted_wrt (\<lambda>a b. fst (snd b) \<le> fst (snd a)) mres
      \<and> (\<exists>fm. filteredMemories (searchMemoriesFor ''naming'') threeMemories = Inr fm
            \<and> (\<forall>v. prefix (map fst (filter (\<lambda>y. fst (snd y) = v) mres))
                 (filter (\<lambda>m. calculateSimilarity_memory fragment_engine
                                 (mq_query (searchMemoriesFor ''naming'')) m = Inr v)
                    fm))))"
proof -
  have "map_sum id (map (\<lambda>y. (rule_id (fst y), snd y)))
          (searchRules fragment_engine (searchFor ''use'') freshInstall)
        = Inr [(''coding-001'', 50), (''git-001'', 35), (''security-001'', 35)]"
    by code_simp
  then obtain res where r: "searchRules fragment_engine (searchFor ''use'') freshInstall = Inr res"
    "map (\<lambda>y. (rule_id (fst y), snd y)) res
       = [(''coding-001'', 50), (''git-001'', 35), (''security-001'', 35)]"
    by (cases "searchRules fragment_engine (searchFor ''use'') freshInstall") auto
  have "map_sum id (map (\<lambda>y. (m_id (fst y), fst (snd y))))
          (searchMemories fragment_engine (searchMemoriesFor ''naming'') threeMemories)
        = Inr [(''mem_2_def'', 70), (''mem_1_abc'', 50), (''mem_3_ghi'', 50)]"
    by code_simp
  then obtain mres where m:
    "searchMemories fragment_engine (searchMemoriesFor ''naming'') threeMemories = Inr mres"
    "map (\<lambda>y. (m_id (fst y), fst (snd y))) mres
       = [(''mem_2_def'', 70), (''mem_1_abc'', 50), (''mem_3_ghi'', 50)]"
    by (cases "searchMemories fragment_engine (searchMemoriesFor ''naming'') threeMemories") auto
  note T = search_sorted_and_stable [of fragment_engine "searchFor ''use''" freshInstall res
      "searchMemoriesFor ''naming''" threeMemories mres]
  note A = T [THEN conjunct1, THEN mp, OF r(1)]
  note B = T [THEN conjunct2, THEN mp, OF m(1)]
  show ?thesis
    by (intro conjI exI [of _ res] exI [of _ mres])
       (rule r m A [THEN conjunct1] A [THEN conjunct2] B [THEN conjunct1] B [THEN conjunct2])+
qed

text \<open>
  Claim C7. The limit is a count of results (5 when none is given), so it is not negative.
  When a search returns, there are at most that many entries, every returned record is in
  the output of the filter on the store, it carries the score the scoring function computes
  for it, and that score is positive. This holds for the rule search and for the memory
  search.
\<close>

theorem search_bounded:
  "(searchRules engine args s = Inr res \<longrightarrow>
      (0 \<le> (case q_limit args of None \<Rightarrow> 5 | Some l \<Rightarrow> l) \<longrightarrow>
         int (length res) \<le> (case q_limit args of None \<Rightarrow> 5 | Some l \<Rightarrow> l))
      \<and> (\<forall>y\<in>set res. fst y \<in> set (filteredRules args (rules s))
             \<and> calculateSimilarity engine (q_query args) (fst y) = Inr (snd y)
             \<and> 0 < snd y))
   \<and> (searchMemories engine margs ms = Inr mres \<longrightarrow>
      (0 \<le> (case mq_limit margs of None \<Rightarrow> 5 | Some l \<Rightarrow> l) \<longrightarrow>
         int (length mres) \<le> (case mq_limit margs of None \<Rightarrow> 5 | Some l \<Rightarrow> l))
      \<and> (\<exists>fm. filteredMemories margs ms = Inr fm
            \<and> (\<forall>y\<in>set mres. fst y \<in> set fm
                  \<and> calculateSimilarity_memory engine (mq_query margs) (fst y)
                      = Inr (fst (snd y))
                  \<and> 0 < fst (snd y))))"
proof (intro conjI impI ballI)
  assume "searchRules engine args s = Inr res"
  then obtain scored where sc:
    "list_all2 (\<lambda>r y. calculateSimilarity engine (q_query args) r = Inr (snd y) \<and> fst y = r)
       (filteredRules args (rules s)) scored"
    "res = slice0 (case q_limit args of None \<Rightarrow> 5 | Some l \<Rightarrow> l)
             (sort_cmp (\<lambda>a b. int (snd b) - int (snd a)) (filter (\<lambda>y. snd y > 0) scored))"
    by (rule searchRules_scored)
  show "int (length res) \<le> (case q_limit args of None \<Rightarrow> 5 | Some l \<Rightarrow> l)"
    if "0 \<le> (case q_limit args of None \<Rightarrow> 5 | Some l \<Rightarrow> l)"
    using sc that by (rule ranked(4))
  fix y assume y: "y \<in> set res"
  from ranked(3) [OF sc y]
  show "fst y \<in> set (filteredRules args (rules s))"
    "calculateSimilarity engine (q_query args) (fst y) = Inr (snd y)" "0 < snd y"
    by simp_all
next
  assume "searchMemories engine margs ms = Inr mres"
  then obtain fm scored where fm: "filteredMemories margs ms = Inr fm" and sc:
    "list_all2 (\<lambda>m y. calculateSimilarity_memory engine (mq_query margs) m = Inr (fst (snd y))
                      \<and> fst y = m)
       fm scored"
    "mres = slice0 (case mq_limit margs of None \<Rightarrow> 5 | Some l \<Rightarrow> l)
             (sort_cmp (\<lambda>a b. int (fst (snd b)) - int (fst (snd a)))
               (filter (\<lambda>y. fst (snd y) > 0) scored))"
    by (rule searchMemories_scored)
  show "int (length mres) \<le> (case mq_limit margs of None \<Rightarrow> 5 | Some l \<Rightarrow> l)"
    if "0 \<le> (case mq_limit margs of None \<Rightarrow> 5 | Some l \<Rightarrow> l)"
    using sc that by (rule ranked(4) [where key = "\<lambda>y. fst (snd y)"])
  have "fst y \<in> set fm
        \<and> calculateSimilarity_memory engine (mq_query margs) (fst y) = Inr (fst (snd y))
        \<and> 0 < fst (snd y)" if "y \<in> set mres" for y
    using ranked(3) [where key = "\<lambda>y. fst (snd y)", OF sc that] by simp
  with fm show "\<exists>fm. filteredMemories margs ms = Inr fm
            \<and> (\<forall>y\<in>set mres. fst y \<in> set fm
                  \<and> calculateSimilarity_memory engine (mq_query margs) (fst y)
                      = Inr (fst (snd y))
                  \<and> 0 < fst (snd y))"
    by blast
qed

theorem search_bounded_witness:
  "(\<exists>res. searchRules fragment_engine ((searchFor ''use'')\<lparr>q_limit := Some 2\<rparr>) freshInstall
            = Inr res
      \<and> map (\<lambda>y. (rule_id (fst y), snd y)) res = [(''coding-001'', 50), (''git-001'', 35)]
      \<and> int (length res) \<le> 2
      \<and> (\<forall>y\<in>set res. fst y \<in> set (rules freshInstall) \<and> 0 < snd y))
   \<and> (\<exists>mres. searchMemories fragment_engine (searchMemoriesFor ''naming'') threeMemories
            = Inr mres
      \<and> int (length mres) \<le> 5
      \<and> (\<forall>y\<in>set mres. fst y \<in> set threeMemories \<and> 0 < fst (snd y)))"
proof -
  let ?a = "(searchFor ''use'')\<lparr>q_limit := Some 2\<rparr>"
  let ?m = "searchMemoriesFor ''naming''"
  have "map_sum id (map (\<lambda>y. (rule_id (fst y), snd y))) (searchRules fragment_engine ?a freshInstall)
        = Inr [(''coding-001'', 50), (''git-001'', 35)]"
    by code_simp
  then obtain res where r: "searchRules fragment_engine ?a freshInstall = Inr res"
    "map (\<lambda>y. (rule_id (fst y), snd y)) res = [(''coding-001'', 50), (''git-001'', 35)]"
    by (cases "searchRules fragment_engine ?a freshInstall") auto
  have "\<not> isl (searchMemories fragment_engine ?m threeMemories)" by code_simp
  then obtain mres where m: "searchMemories fragment_engine ?m threeMemories = Inr mres"
    by (cases "searchMemories fragment_engine ?m threeMemories") auto
  have l: "(case q_limit ?a of None \<Rightarrow> 5 | Some l \<Rightarrow> l) = 2"
    "(case mq_limit ?m of None \<Rightarrow> 5 | Some l \<Rightarrow> l) = 5"
    by (simp_all add: searchFor_def searchMemoriesFor_def)
  have f: "filteredRules ?a (rules freshInstall) = rules freshInstall"
    "filteredMemories ?m threeMemories = Inr threeMemories"
    by (simp_all add: searchFor_def searchMemoriesFor_def filteredRules_def filteredMemories_def)
  note T = search_bounded [of fragment_engine ?a freshInstall res ?m threeMemories mres]
  note A = T [THEN conjunct1, THEN mp, OF r(1)]
  note B = T [THEN conjunct2, THEN mp, OF m(1)]
  have 1: "int (length res) \<le> 2 \<and> (\<forall>y\<in>set res. fst y \<in> set (rules freshInstall) \<and> 0 < snd y)"
    using A by (simp add: l f)
  have 2: "int (length mres) \<le> 5 \<and> (\<forall>y\<in>set mres. fst y \<in> set threeMemories \<and> 0 < fst (snd y))"
    using B by (simp add: l f)
  show ?thesis
    by (intro conjI exI [of _ res] exI [of _ mres])
       (rule r m 1 [THEN conjunct1] 1 [THEN conjunct2] 2 [THEN conjunct1] 2 [THEN conjunct2])+
qed

subsection \<open>The tags filter\<close>

lemma filteredRules_tags:
  assumes "q_tags args = Some ts" "ts \<noteq> []"
  shows "filteredRules args rs =
     filter (\<lambda>r. \<exists>T\<in>set (tags r). \<exists>Q\<in>set ts. \<exists>a b. toLowerCase T = a @ toLowerCase Q @ b)
       (filteredRules (args\<lparr>q_tags := None\<rparr>) rs)"
proof -
  have eq: "list_ex (\<lambda>tag. list_ex (\<lambda>ruleTag. includes_str (toLowerCase ruleTag) (toLowerCase tag))
                   (tags r)) ts
        \<longleftrightarrow> (\<exists>T\<in>set (tags r). \<exists>Q\<in>set ts. \<exists>a b. toLowerCase T = a @ toLowerCase Q @ b)"
    for r :: Rule
    by (auto simp: list_ex_iff includes_str_iff)
  from assms show ?thesis
    by (simp add: filteredRules_def Let_def eq split: option.splits)
qed

lemma filteredMemories_tags:
  assumes "mq_tags args = Some ts" "ts \<noteq> []"
  shows "filteredMemories args ms =
     map_sum id
       (filter (\<lambda>m. \<exists>T\<in>set (m_tags m). \<exists>Q\<in>set ts. \<exists>a b. toLowerCase T = a @ toLowerCase Q @ b))
       (filteredMemories (args\<lparr>mq_tags := None\<rparr>) ms)"
proof -
  have eq: "list_ex (\<lambda>tag. list_ex (\<lambda>memTag. includes_str (toLowerCase memTag) (toLowerCase tag))
                   (m_tags m)) ts
        \<longleftrightarrow> (\<exists>T\<in>set (m_tags m). \<exists>Q\<in>set ts. \<exists>a b. toLowerCase T = a @ toLowerCase Q @ b)"
    for m :: MemoryEntry
    by (auto simp: list_ex_iff includes_str_iff)
  from assms show ?thesis
    by (simp add: filteredMemories_def Let_def eq split: option.splits sum.splits)
qed

text \<open>
  Claim C3, amended. For every collection and every non-empty list of requested tags, the
  tags filter keeps, of the records that pass the other filters, exactly those having a
  tag \<open>T\<close> and a requested tag \<open>Q\<close> such that lowercased \<open>Q\<close> is a substring of lowercased
  \<open>T\<close>; the order of the records is kept. This holds for rules and for memories, where an
  exception of the project or category filter is passed on unchanged.
\<close>

theorem tags_filter_requested_in_record_tag:
  "(q_tags args = Some ts \<and> ts \<noteq> [] \<longrightarrow>
      filteredRules args rs =
        filter (\<lambda>r. \<exists>T\<in>set (tags r). \<exists>Q\<in>set ts. \<exists>a b. toLowerCase T = a @ toLowerCase Q @ b)
          (filteredRules (args\<lparr>q_tags := None\<rparr>) rs))
   \<and> (mq_tags margs = Some mts \<and> mts \<noteq> [] \<longrightarrow>
      filteredMemories margs ms =
        map_sum id
          (filter (\<lambda>m. \<exists>T\<in>set (m_tags m). \<exists>Q\<in>set mts.
                          \<exists>a b. toLowerCase T = a @ toLowerCase Q @ b))
          (filteredMemories (margs\<lparr>mq_tags := None\<rparr>) ms))"
  using filteredRules_tags [of args ts rs] filteredMemories_tags [of margs mts ms] by blast

text \<open>
  Claim C3 as stated fails: a record tagged \<open>git\<close> is dropped when the requested tag is
  \<open>github\<close>, although the record's tag is a substring of the requested one.
\<close>

theorem tags_filter_symmetric_counterexample:
  "filteredRules ((searchFor ''naming'')\<lparr>q_tags := Some [''github'']\<rparr>) [tinyRule] = []
   \<and> symmetric_tag_match [''github''] (tags tinyRule)
   \<and> filteredMemories ((searchMemoriesFor ''naming'')\<lparr>mq_tags := Some [''github'']\<rparr>) [tinyMemory]
       = Inr []
   \<and> symmetric_tag_match [''github''] (m_tags tinyMemory)"
  by code_simp

theorem tags_filter_requested_in_record_tag_witness:
  "filteredRules ((searchFor ''naming'')\<lparr>q_tags := Some [''GI'', ''x'']\<rparr>) [tinyRule] = [tinyRule]
   \<and> filteredMemories ((searchMemoriesFor ''naming'')\<lparr>mq_tags := Some [''GI'', ''x'']\<rparr>)
        [tinyMemory] = Inr [tinyMemory]"
proof -
  let ?a = "(searchFor ''naming'')\<lparr>q_tags := Some [''GI'', ''x'']\<rparr>"
  let ?m = "(searchMemoriesFor ''naming'')\<lparr>mq_tags := Some [''GI'', ''x'']\<rparr>"
  have low: "toLowerCase ''git'' = [] @ toLowerCase ''GI'' @ ''t''" by code_simp
  have a: "q_tags ?a = Some [''GI'', ''x''] \<and> [''GI'', ''x''] \<noteq> []" by simp
  have m: "mq_tags ?m = Some [''GI'', ''x''] \<and> [''GI'', ''x''] \<noteq> []" by simp
  note T = tags_filter_requested_in_record_tag [of ?a "[''GI'', ''x'']" "[tinyRule]" ?m "[''GI'', ''x'']" "[tinyMemory]"]
  have fr: "filteredRules (?a\<lparr>q_tags := None\<rparr>) [tinyRule] = [tinyRule]" by code_simp
  have fm: "filteredMemories (?m\<lparr>mq_tags := None\<rparr>) [tinyMemory] = Inr [tinyMemory]" by code_simp
  have kr: "\<exists>T\<in>set (tags tinyRule). \<exists>Q\<in>set [''GI'', ''x'']. \<exists>a b. toLowerCase T = a @ toLowerCase Q @ b"
    using low by (auto simp: tinyRule_def)
  have km: "\<exists>T\<in>set (m_tags tinyMemory). \<exists>Q\<in>set [''GI'', ''x'']. \<exists>a b. toLowerCase T = a @ toLowerCase Q @ b"
    using low by (auto simp: tinyMemory_def)
  from T [THEN conjunct1, THEN mp, OF a] fr kr
  have 1: "filteredRules ?a [tinyRule] = [tinyRule]" by simp
  from T [THEN conjunct2, THEN mp, OF m] fm km
  have 2: "filteredMemories ?m [tinyMemory] = Inr [tinyMemory]" by simp
  from 1 2 show ?thesis by (rule conjI)
qed

subsection \<open>Create, update and delete\<close>

lemma findIndex_Some:
  "findIndex p xs = Some i \<Longrightarrow> i < length xs \<and> p (xs ! i) \<and> (\<forall>j<i. \<not> p (xs ! j))"
proof (induction xs arbitrary: i)
  case Nil
  then show ?case by simp
next
  case (Cons x xs)
  show ?case
  proof (cases "p x")
    case True
    with Cons.prems show ?thesis by simp
  next
    case False
    with Cons.prems obtain k where k: "findIndex p xs = Some k" "i = Suc k"
      by (auto split: option.splits)
    from Cons.IH [OF k(1)] False k(2) show ?thesis
      by (auto simp: nth_Cons split: nat.splits)
  qed
qed
lemma findIndex_exists: "x \<in> set xs \<Longrightarrow> p x \<Longrightarrow> \<exists>i. findIndex p xs = Some i"
  by (induction xs) (auto split: option.splits)

lemma saveRules_memory:
  "rules (snd (saveRules d s)) = rules s" "categories (snd (saveRules d s)) = categories s"
  by (simp_all add: saveRules_def Let_def)

lemma saveRules_ok:
  "writeRulesOk d \<Longrightarrow> writeCategoriesOk d \<Longrightarrow>
   fst (saveRules d s) = Inr () \<and> rulesFile (snd (saveRules d s)) = Some (rules s)
   \<and> categoriesFile (snd (saveRules d s)) = Some (categories s)"
  by (simp add: saveRules_def Let_def)

lemma updateRule_found:
  "findIndex (\<lambda>r. rule_id r = u_id args) (rules s) = Some i \<Longrightarrow>
   updateRule now d args s =
     saveRules d (s\<lparr>rules := (rules s)[i := merge_updates now args (rules s ! i)]\<rparr>)"
  by (simp add: updateRule_def)

lemma find_update_found:
  "(\<And>x. p (f x) = p x) \<Longrightarrow> find p (update_found p f xs) = map_option f (find p xs)"
  by (induction xs) auto

lemma update_found_member:
  "x \<in> set xs \<Longrightarrow> p x \<Longrightarrow> \<exists>y\<in>set xs. p y \<and> f y \<in> set (update_found p f xs)"
  by (induction xs) auto

lemma createRule_state:
  assumes "a_category a = Some cat"
  shows "rules (snd (createRule now d a s)) =
           rules s @ [\<lparr>rule_id = generateId (rules s) cat, title = a_title a, category = cat,
                       description = or_else (a_description a) [], content = a_content a,
                       tags = or_else (a_tags a) [], examples = or_else (a_examples a) [],
                       relatedRules = [], timestamp = now, version = ''1.0.0''\<rparr>]"
    and "categories (snd (createRule now d a s)) =
           update_found (\<lambda>c. cat_name c = cat)
             (\<lambda>c. c\<lparr>cat_rules := cat_rules c @ [generateId (rules s) cat]\<rparr>)
             (if list_ex (\<lambda>c. cat_name c = cat) (categories s) then categories s
              else categories s @
                [\<lparr>cat_name = cat, cat_description = ''Rules for '' @ cat, cat_rules = []\<rparr>])"
  using assms
  by (auto simp: createRule_def Let_def saveRules_def split: prod.splits sum.splits)

lemma deleteRule_state:
  assumes "findIndex (\<lambda>r. rule_id r = ident) (rules s) = Some n"
  shows "rules (snd (deleteRule d ident s)) = take n (rules s) @ drop (Suc n) (rules s)"
    and "categories (snd (deleteRule d ident s)) =
           update_found (\<lambda>c. cat_name c = category (rules s ! n))
             (\<lambda>c. c\<lparr>cat_rules := filter (\<lambda>ruleId. ruleId \<noteq> ident) (cat_rules c)\<rparr>)
             (categories s)"
  using assms by (simp_all add: deleteRule_def Let_def saveRules_memory)

text \<open>
  Claim C8. For every id that some rule of the store carries and every partial update, the
  update changes the first rule with that id and nothing else in the array: the array keeps
  its length, the rule keeps its id, its timestamp becomes the clock reading, each of its
  other fields takes the supplied value when one is supplied and keeps its value otherwise,
  and every other rule is unchanged. When both writes succeed the call succeeds and the
  rules file holds the new array.
\<close>

theorem update_frame:
  assumes "r \<in> set (rules s)" and "rule_id r = u_id args"
  shows "\<exists>i<length (rules s).
           rule_id (rules s ! i) = u_id args \<and> (\<forall>j<i. rule_id (rules s ! j) \<noteq> u_id args)
         \<and> length (rules (snd (updateRule now d args s))) = length (rules s)
         \<and> rule_id (rules (snd (updateRule now d args s)) ! i) = rule_id (rules s ! i)
         \<and> timestamp (rules (snd (updateRule now d args s)) ! i) = now
         \<and> replaced (map_option Some (u_title args)) (title (rules s ! i))
              (title (rules (snd (updateRule now d args s)) ! i))
         \<and> replaced (u_category args) (category (rules s ! i))
              (category (rules (snd (updateRule now d args s)) ! i))
         \<and> replaced (u_description args) (description (rules s ! i))
              (description (rules (snd (updateRule now d args s)) ! i))
         \<and> replaced (map_option Some (u_content args)) (content (rules s ! i))
              (content (rules (snd (updateRule now d args s)) ! i))
         \<and> replaced (u_tags args) (tags (rules s ! i))
              (tags (rules (snd (updateRule now d args s)) ! i))
         \<and> replaced (u_examples args) (examples (rules s ! i))
              (examples (rules (snd (updateRule now d args s)) ! i))
         \<and> replaced (u_relatedRules args) (relatedRules (rules s ! i))
              (relatedRules (rules (snd (updateRule now d args s)) ! i))
         \<and> replaced (u_version args) (version (rules s ! i))
              (version (rules (snd (updateRule now d args s)) ! i))
         \<and> (\<forall>j<length (rules s). j \<noteq> i \<longrightarrow>
              rules (snd (updateRule now d args s)) ! j = rules s ! j)
         \<and> (writeRulesOk d \<and> writeCategoriesOk d \<longrightarrow>
              fst (updateRule now d args s) = Inr ()
              \<and> rulesFile (snd (updateRule now d args s))
                  = Some (rules (snd (updateRule now d args s))))"
proof -
  from assms obtain i where i: "findIndex (\<lambda>r. rule_id r = u_id args) (rules s) = Some i"
    using findIndex_exists [of r "rules s" "\<lambda>r. rule_id r = u_id args"] by blast
  note f = findIndex_Some [OF i]
  let ?s1 = "s\<lparr>rules := (rules s)[i := merge_updates now args (rules s ! i)]\<rparr>"
  have u: "updateRule now d args s = saveRules d ?s1" using i by (rule updateRule_found)
  have rs: "rules (snd (updateRule now d args s)) = (rules s)[i := merge_updates now args (rules s ! i)]"
    by (simp add: u saveRules_memory)
  have new: "rules (snd (updateRule now d args s)) ! i = merge_updates now args (rules s ! i)"
    using f by (simp add: rs)
  have ok: "fst (updateRule now d args s) = Inr ()
              \<and> rulesFile (snd (updateRule now d args s))
                  = Some (rules (snd (updateRule now d args s)))"
    if "writeRulesOk d \<and> writeCategoriesOk d"
    using that saveRules_ok [of d ?s1] by (simp add: u saveRules_memory)
  show ?thesis
  proof (intro exI [of _ i] conjI allI impI)
    show "i < length (rules s)" using f by simp
    show "rule_id (rules s ! i) = u_id args" using f by simp
    show "rule_id (rules s ! j) \<noteq> u_id args" if "j < i" for j using f that by simp
    show "length (rules (snd (updateRule now d args s))) = length (rules s)" by (simp add: rs)
    show "rules (snd (updateRule now d args s)) ! j = rules s ! j"
      if "j < length (rules s)" "j \<noteq> i" for j using that by (simp add: rs)
    show "fst (updateRule now d args s) = Inr ()" if "writeRulesOk d \<and> writeCategoriesOk d"
      using ok [OF that] by simp
    show "rulesFile (snd (updateRule now d args s)) = Some (rules (snd (updateRule now d args s)))"
      if "writeRulesOk d \<and> writeCategoriesOk d"
      using ok [OF that] by simp
  qed (simp_all add: new merge_updates_def replaced_def split: option.splits)
qed

theorem update_frame_witness:
  "\<exists>i<length (rules freshInstall).
      rule_id (rules freshInstall ! i) = ''git-001''
      \<and> rule_id (rules (snd (updateRule laterInstant diskOk retitle freshInstall)) ! i) = ''git-001''
      \<and> timestamp (rules (snd (updateRule laterInstant diskOk retitle freshInstall)) ! i)
          = laterInstant
      \<and> title (rules (snd (updateRule laterInstant diskOk retitle freshInstall)) ! i)
          = Some ''Commit messages''
      \<and> tags (rules (snd (updateRule laterInstant diskOk retitle freshInstall)) ! i)
          = tags (rules freshInstall ! i)
      \<and> fst (updateRule laterInstant diskOk retitle freshInstall) = Inr ()"
proof -
  have m: "rules freshInstall ! 1 \<in> set (rules freshInstall)" by code_simp
  have e: "rule_id (rules freshInstall ! 1) = u_id retitle" by code_simp
  have u: "u_id retitle = ''git-001''" "u_title retitle = Some ''Commit messages''"
    "u_tags retitle = None"
    by (simp_all add: retitle_def noUpdates_def)
  have d: "writeRulesOk diskOk \<and> writeCategoriesOk diskOk" by (simp add: diskOk_def)
  from update_frame [OF m e, of laterInstant diskOk] u d
  show ?thesis by (auto simp: replaced_def)
qed

text \<open>
  Claim C10. For every rule of the store and every update of it that supplies a category
  \<open>c\<close>: the category field of the rule becomes \<open>c\<close> and the category index is left as it
  was, in memory and on disk, so the rule's id stays in the member list of its old category
  and enters no other. Create and delete do maintain the lists: after a create in a
  category, an entry of that name ends with the new id; after a delete, the entry looked up
  by the deleted rule's category no longer lists the id.
\<close>

theorem update_leaves_category_index:
  "(r \<in> set (rules s) \<and> rule_id r = u_id args \<and> u_category args = Some c \<longrightarrow>
      (\<exists>i<length (rules s).
          rule_id (rules s ! i) = u_id args \<and> (\<forall>j<i. rule_id (rules s ! j) \<noteq> u_id args)
          \<and> category (rules (snd (updateRule now d args s)) ! i) = c)
      \<and> categories (snd (updateRule now d args s)) = categories s
      \<and> (writeRulesOk d \<and> writeCategoriesOk d \<longrightarrow>
           categoriesFile (snd (updateRule now d args s)) = Some (categories s)))
   \<and> (a_category a = Some cat \<longrightarrow>
      (\<exists>k\<in>set (categories (snd (createRule now d a s))).
          cat_name k = cat \<and> cat_rules k \<noteq> []
          \<and> last (cat_rules k) = generateId (rules s) cat))
   \<and> (findIndex (\<lambda>r. rule_id r = ident) (rules s) = Some n \<longrightarrow>
      (\<forall>k. find (\<lambda>k. cat_name k = category (rules s ! n))
                (categories (snd (deleteRule d ident s))) = Some k
           \<longrightarrow> ident \<notin> set (cat_rules k)))"
proof (intro conjI impI)
  assume a: "r \<in> set (rules s) \<and> rule_id r = u_id args \<and> u_category args = Some c"
  then obtain i where i: "findIndex (\<lambda>r. rule_id r = u_id args) (rules s) = Some i"
    using findIndex_exists [of r "rules s" "\<lambda>r. rule_id r = u_id args"] by blast
  note f = findIndex_Some [OF i]
  let ?s1 = "s\<lparr>rules := (rules s)[i := merge_updates now args (rules s ! i)]\<rparr>"
  have u: "updateRule now d args s = saveRules d ?s1" using i by (rule updateRule_found)
  have "category (rules (snd (updateRule now d args s)) ! i) = c"
    using f a by (simp add: u saveRules_memory merge_updates_def)
  with f show "\<exists>i<length (rules s).
          rule_id (rules s ! i) = u_id args \<and> (\<forall>j<i. rule_id (rules s ! j) \<noteq> u_id args)
          \<and> category (rules (snd (updateRule now d args s)) ! i) = c"
    by blast
  show "categories (snd (updateRule now d args s)) = categories s"
    by (simp add: u saveRules_memory)
  show "categoriesFile (snd (updateRule now d args s)) = Some (categories s)"
    if "writeRulesOk d \<and> writeCategoriesOk d"
    using that saveRules_ok [of d ?s1] by (simp add: u)
next
  assume a: "a_category a = Some cat"
  let ?P = "\<lambda>c. cat_name c = cat"
  let ?F = "\<lambda>c. c\<lparr>cat_rules := cat_rules c @ [generateId (rules s) cat]\<rparr>"
  let ?cats = "if list_ex ?P (categories s) then categories s
               else categories s @
                 [\<lparr>cat_name = cat, cat_description = ''Rules for '' @ cat, cat_rules = []\<rparr>]"
  have "\<exists>x\<in>set ?cats. ?P x" by (auto simp: list_ex_iff)
  then obtain x where "x \<in> set ?cats" "?P x" by blast
  from update_found_member [of x ?cats ?P ?F, OF this]
  obtain y where "cat_name y = cat" "?F y \<in> set (update_found ?P ?F ?cats)" by blast
  then have "?F y \<in> set (categories (snd (createRule now d a s)))"
    by (simp only: createRule_state(2) [OF a])
  moreover have "cat_name (?F y) = cat" "cat_rules (?F y) \<noteq> []"
    "last (cat_rules (?F y)) = generateId (rules s) cat"
    using \<open>cat_name y = cat\<close> by simp_all
  ultimately show "\<exists>k\<in>set (categories (snd (createRule now d a s))).
          cat_name k = cat \<and> cat_rules k \<noteq> [] \<and> last (cat_rules k) = generateId (rules s) cat"
    by blast
next
  assume n: "findIndex (\<lambda>r. rule_id r = ident) (rules s) = Some n"
  let ?P = "\<lambda>k. cat_name k = category (rules s ! n)"
  let ?F = "\<lambda>c. c\<lparr>cat_rules := filter (\<lambda>ruleId. ruleId \<noteq> ident) (cat_rules c)\<rparr>"
  have "find ?P (categories (snd (deleteRule d ident s))) = map_option ?F (find ?P (categories s))"
    by (simp only: deleteRule_state(2) [OF n]) (rule find_update_found, simp)
  then show "\<forall>k. find ?P (categories (snd (deleteRule d ident s))) = Some k
           \<longrightarrow> ident \<notin> set (cat_rules k)"
    by auto
qed

theorem update_leaves_category_index_witness:
  "(\<exists>i<length (rules freshInstall).
       rule_id (rules freshInstall ! i) = ''git-001''
       \<and> category (rules (snd (updateRule laterInstant diskOk recategorise freshInstall)) ! i)
           = ''workflow'')
   \<and> categories (snd (updateRule laterInstant diskOk recategorise freshInstall))
       = categories freshInstall
   \<and> categoriesFile (snd (updateRule laterInstant diskOk recategorise freshInstall))
       = Some (categories freshInstall)
   \<and> (\<exists>k\<in>set (categories (snd (createRule laterInstant diskOk pullRequestRule freshInstall))).
         cat_name k = ''github'' \<and> cat_rules k \<noteq> []
         \<and> last (cat_rules k) = generateId (rules freshInstall) ''github'')
   \<and> (\<exists>k. find (\<lambda>k. cat_name k = category (rules freshInstall ! 1))
              (categories (snd (deleteRule diskOk ''git-001'' freshInstall))) = Some k
         \<and> ''git-001'' \<notin> set (cat_rules k))"
proof -
  have m: "rules freshInstall ! 1 \<in> set (rules freshInstall)
           \<and> rule_id (rules freshInstall ! 1) = u_id recategorise
           \<and> u_category recategorise = Some ''workflow''"
    by code_simp
  have u: "u_id recategorise = ''git-001''" by (simp add: recategorise_def noUpdates_def)
  have d: "writeRulesOk diskOk \<and> writeCategoriesOk diskOk" by (simp add: diskOk_def)
  have c: "a_category pullRequestRule = Some ''github''"
    by (simp add: pullRequestRule_def newRule_def)
  have f: "findIndex (\<lambda>r. rule_id r = ''git-001'') (rules freshInstall) = Some 1" by code_simp
  note T = update_leaves_category_index [of "rules freshInstall ! 1" freshInstall recategorise
      "''workflow''" laterInstant diskOk pullRequestRule "''github''" "''git-001''" 1]
  note U = T [THEN conjunct1, THEN mp, OF m]
  note C = T [THEN conjunct2, THEN conjunct1, THEN mp, OF c]
  note D = T [THEN conjunct2, THEN conjunct2, THEN mp, OF f]
  from U u d have 1: "(\<exists>i<length (rules freshInstall).
       rule_id (rules freshInstall ! i) = ''git-001''
       \<and> category (rules (snd (updateRule laterInstant diskOk recategorise freshInstall)) ! i)
           = ''workflow'')
   \<and> categories (snd (updateRule laterInstant diskOk recategorise freshInstall))
       = categories freshInstall
   \<and> categoriesFile (snd (updateRule laterInstant diskOk recategorise freshInstall))
       = Some (categories freshInstall)"
    by auto
  have "find (\<lambda>k. cat_name k = category (rules freshInstall ! 1))
          (categories (snd (deleteRule diskOk ''git-001'' freshInstall))) \<noteq> None"
    by code_simp
  then obtain k where k: "find (\<lambda>k. cat_name k = category (rules freshInstall ! 1))
          (categories (snd (deleteRule diskOk ''git-001'' freshInstall))) = Some k"
    by blast
  with D have 2: "\<exists>k. find (\<lambda>k. cat_name k = category (rules freshInstall ! 1))
              (categories (snd (deleteRule diskOk ''git-001'' freshInstall))) = Some k
         \<and> ''git-001'' \<notin> set (cat_rules k)"
    by blast
  from 1 C 2 show ?thesis by (intro conjI) (erule conjE | assumption)+
qed

subsection \<open>Rule ids\<close>

lemma padStart_zeros: "padStart 3 ''0'' x = replicate (3 - length x) CHR ''0'' @ x"
proof -
  have "concat (replicate k [c]) = replicate k c" for k and c :: char
    by (induction k) simp_all
  then show ?thesis by (simp add: padStart_def repeat_to_def)
qed

lemma count_category:
  "length (filter (\<lambda>r. category r = C) rs) = count_list (map category rs) C"
  by (induction rs) simp_all

lemma generateId_count:
  "length (filter (\<lambda>r. category r = C) rs) = length (filter (\<lambda>r. category r = C) rs')
   \<Longrightarrow> generateId rs C = generateId rs' C"
  by (simp add: generateId_def)

lemma filter_remove_nth:
  assumes "k < length xs" "P (xs ! k)"
  shows "Suc (length (filter P (take k xs @ drop (Suc k) xs))) = length (filter P xs)"
proof -
  have "length (filter P xs) = length (filter P (take k xs @ xs ! k # drop (Suc k) xs))"
    using assms(1) by (simp only: id_take_nth_drop [symmetric])
  with assms(2) show ?thesis by simp
qed

text \<open>
  Claim C5. For every store and category \<open>C\<close>, the id minted for a new rule in \<open>C\<close> is the
  first three characters of \<open>C\<close> lowercased, a hyphen, and the decimal value, padded with
  zeros to width 3, of one more than the number of rules of the store whose category is
  exactly \<open>C\<close>. So an id is issued again: after a create in \<open>C\<close> and the deletion of any
  rule of category \<open>C\<close>, the id minted for \<open>C\<close> is the one the create has just given out.
\<close>

theorem generateId_sequential:
  "generateId rs C = sequential_id rs C
   \<and> (a_category a = Some C
       \<and> findIndex (\<lambda>x. rule_id x = ident) (rules (snd (createRule now d a s))) = Some k
       \<and> category (rules (snd (createRule now d a s)) ! k) = C \<longrightarrow>
       rule_id (last (rules (snd (createRule now d a s)))) = generateId (rules s) C
       \<and> generateId (rules (snd (deleteRule d' ident (snd (createRule now d a s))))) C
           = generateId (rules s) C)"
proof (intro conjI impI)
  show "generateId rs C = sequential_id rs C"
    by (simp add: generateId_def sequential_id_def Let_def padStart_zeros count_category)
next
  assume h: "a_category a = Some C
       \<and> findIndex (\<lambda>x. rule_id x = ident) (rules (snd (createRule now d a s))) = Some k
       \<and> category (rules (snd (createRule now d a s)) ! k) = C"
  let ?s1 = "snd (createRule now d a s)"
  from h have c: "a_category a = Some C" by simp
  show "rule_id (last (rules ?s1)) = generateId (rules s) C"
    by (simp add: createRule_state(1) [OF c])
  from h have k: "findIndex (\<lambda>x. rule_id x = ident) (rules ?s1) = Some k"
    and kc: "category (rules ?s1 ! k) = C" by simp_all
  from findIndex_Some [OF k] have kl: "k < length (rules ?s1)" by simp
  have "Suc (length (filter (\<lambda>r. category r = C) (take k (rules ?s1) @ drop (Suc k) (rules ?s1))))
        = length (filter (\<lambda>r. category r = C) (rules ?s1))"
    using kl kc by (rule filter_remove_nth)
  also have "\<dots> = Suc (length (filter (\<lambda>r. category r = C) (rules s)))"
    by (simp add: createRule_state(1) [OF c])
  finally have "length (filter (\<lambda>r. category r = C) (rules (snd (deleteRule d' ident ?s1))))
        = length (filter (\<lambda>r. category r = C) (rules s))"
    by (simp add: deleteRule_state(1) [OF k])
  then show "generateId (rules (snd (deleteRule d' ident ?s1))) C = generateId (rules s) C"
    by (rule generateId_count)
qed

theorem generateId_sequential_witness:
  "generateId (rules freshInstall) ''git'' = ''git-002''
   \<and> rule_id (last (rules (snd (createRule laterInstant diskOk branchRule freshInstall))))
       = ''git-002''
   \<and> generateId
        (rules (snd (deleteRule diskOk ''git-001''
                      (snd (createRule laterInstant diskOk branchRule freshInstall)))))
        ''git''
       = ''git-002''"
proof -
  have g: "generateId (rules freshInstall) ''git'' = ''git-002''" by code_simp
  have h: "a_category branchRule = Some ''git''
       \<and> findIndex (\<lambda>x. rule_id x = ''git-001'')
            (rules (snd (createRule laterInstant diskOk branchRule freshInstall))) = Some 1
       \<and> category (rules (snd (createRule laterInstant diskOk branchRule freshInstall)) ! 1)
           = ''git''"
    by code_simp
  from generateId_sequential [of "rules freshInstall" "''git''" branchRule "''git-001''"
      laterInstant diskOk freshInstall 1 diskOk, THEN conjunct2, THEN mp, OF h] g
  show ?thesis by simp
qed

text \<open>
  Claim C4 (ids of created rules are pairwise distinct) fails in the code: the prefix of an
  id is cut to three characters while the counter is per category, so the first rules of
  the categories \<open>git\<close> and \<open>github\<close> both get \<open>git-001\<close>, on an empty store and on the
  seeded one.
\<close>

theorem created_ids_collide:
  "map rule_id (rules (snd (createRule laterInstant diskOk pullRequestRule
       (snd (createRule laterInstant diskOk branchRule newServer)))))
     = [''git-001'', ''git-001'']
   \<and> map rule_id (rules (snd (createRule laterInstant diskOk pullRequestRule freshInstall)))
     = [''coding-001'', ''git-001'', ''security-001'', ''git-001'']"
  by code_simp

text \<open>
  Claim C9 (a create request without a required field fails with a validation error) fails
  in the code: a request with a category but neither title nor content succeeds, its record
  is appended and written, and the next search that reaches the record throws.
\<close>

theorem create_without_title_is_stored:
  "fst (createRule laterInstant diskOk untitledRule freshInstall)
     = Inr \<lparr>rule_id = ''git-002'', title = None, category = ''git'', description = [],
            content = None, tags = [], examples = [], relatedRules = [],
            timestamp = laterInstant, version = ''1.0.0''\<rparr>
   \<and> map rule_id (rules (snd (createRule laterInstant diskOk untitledRule freshInstall)))
     = [''coding-001'', ''git-001'', ''security-001'', ''git-002'']
   \<and> rulesFile (snd (createRule laterInstant diskOk untitledRule freshInstall))
     = Some (rules (snd (createRule laterInstant diskOk untitledRule freshInstall)))
   \<and> searchRules fragment_engine (searchFor ''commit'')
        (snd (createRule laterInstant diskOk untitledRule freshInstall))
     = Inl TypeError"
  by code_simp

subsection \<open>Scoring\<close>

text \<open>
  Where the query text means itself as a pattern, the scores are the sums of the scoring
  table: for every query without a syntax character of the pattern language, every rule
  whose title and content are present and every memory whose title, content and category
  are present, the score is 50 for the title, 40 (rules) or 30 (memories) for each tag that
  contains the query or is contained in it, 30 or 25 for the category, 15 or 20 times the
  number of non-overlapping occurrences of the query in the content, 25 for the description
  or the joined context values, and for rules 10 for each example containing the query;
  every text is compared lowercased, and nothing caps the sum.
\<close>

lemma literal_query_score:
  "syntax_free query \<Longrightarrow>
     (title rule = Some t \<and> content rule = Some c \<longrightarrow>
        calculateSimilarity fragment_engine query rule = Inr (rule_signals query t c rule))
     \<and> (m_title memory = Some mt \<and> m_content memory = Some mc \<and> m_category memory = Some mk \<longrightarrow>
        calculateSimilarity_memory fragment_engine query memory
          = Inr (memory_signals query mt mc mk memory))"
proof -
  assume "syntax_free query"
  then have e: "fragment_engine (toLowerCase query) x = Inr (occurrences (toLowerCase query) x)"
    for x
    by (simp add: fragment_engine_literal syntax_free_lower)
  show ?thesis
    by (simp add: calculateSimilarity_def calculateSimilarity_memory_def Let_def e
        rule_signals_def memory_signals_def signal_def)
qed

lemma literal_query_score_example:
  "syntax_free ''Naming''
   \<and> calculateSimilarity fragment_engine ''Naming'' tinyRule = Inr 50
   \<and> calculateSimilarity_memory fragment_engine ''Naming'' tinyMemory = Inr 50"
  by code_simp

text \<open>A record stored without one of the fields the scorer reads makes the scorer throw.\<close>

lemma absent_field_throws:
  "title rule = None \<or> content rule = None
     \<Longrightarrow> calculateSimilarity engine query rule = Inl TypeError"
  "m_title memory = None \<or> m_content memory = None
     \<Longrightarrow> calculateSimilarity_memory engine query memory = Inl TypeError"
  by (auto simp: calculateSimilarity_def calculateSimilarity_memory_def Let_def
      split: option.splits)

text \<open>
  A query with a meaning of its own as a pattern is counted by that meaning: the query \<open>.\<close>
  occurs nowhere in the content \<open>ab\<close>, and matches twice there.
\<close>

lemma pattern_query_counts_matches:
  "calculateSimilarity fragment_engine ''.'' tinyRule = Inr 30
   \<and> rule_signals ''.'' ''Naming'' ''ab'' tinyRule = 0
   \<and> calculateSimilarity_memory fragment_engine ''.'' tinyMemory = Inr 40
   \<and> memory_signals ''.'' ''Naming'' ''ab'' ''testing'' tinyMemory = 0"
  by code_simp

text \<open>
  Claim C1 (for every record and every query the score is the sum of the signals of the
  scoring table) fails in the code: the scorer hands the query text to the pattern
  constructor as it is, and for the queries \<open>(\<close> and \<open>C++\<close> the constructor throws, so that
  neither a rule nor a memory gets a score at all.
\<close>

theorem similarity_throws_on_pattern_text:
  "calculateSimilarity fragment_engine ''('' tinyRule = Inl SyntaxError
   \<and> calculateSimilarity fragment_engine ''C++'' tinyRule = Inl SyntaxError
   \<and> calculateSimilarity_memory fragment_engine ''('' tinyMemory = Inl SyntaxError
   \<and> calculateSimilarity_memory fragment_engine ''C++'' tinyMemory = Inl SyntaxError"
  by code_simp

lemma invalid_pattern_throws:
  assumes "RegExp_new (toLowerCase (q_query args)) = InvalidPattern"
    and "filteredRules args (rules s) = r # rest"
    and "title r = Some t" "content r = Some c"
  shows "searchRules fragment_engine args s = Inl SyntaxError"
  using assms
  by (simp add: searchRules_def Let_def calculateSimilarity_def fragment_engine_def)

lemma invalid_pattern_throws_memory:
  assumes "RegExp_new (toLowerCase (mq_query args)) = InvalidPattern"
    and "filteredMemories args ms = Inr (m # rest)"
    and "m_title m = Some t" "m_content m = Some c"
  shows "searchMemories fragment_engine args ms = Inl SyntaxError"
  using assms
  by (simp add: searchMemories_def Let_def calculateSimilarity_memory_def fragment_engine_def)

text \<open>
  Claim C2 (an invalid pattern text counts as zero content matches and the search goes on)
  fails in the code: with the query \<open>(\<close>, or \<open>C++\<close>, the construction of the pattern throws
  while the first record is scored, and the search ends with that error, for rules and for
  memories.
\<close>

theorem invalid_pattern_aborts_search:
  "searchRules fragment_engine (searchFor ''('') freshInstall = Inl SyntaxError
   \<and> searchRules fragment_engine (searchFor ''C++'') freshInstall = Inl SyntaxError
   \<and> searchMemories fragment_engine (searchMemoriesFor ''('') threeMemories = Inl SyntaxError"
  by code_simp

end
